theory Spec2Isabelle
  imports Complex_Main "HOL-Library.Sublist" "HOL-Library.Multiset"
    "HOL-Library.Product_Lexorder" "HOL-Library.List_Lexorder" "HOL-Library.Char_ord"
begin

section \<open>Python values, exceptions and the notebook's state\<close>

text \<open>
  The notebook \<^verbatim>\<open>Summarize-Scientific-Documents.ipynb\<close> is a linear script of code
  cells over global variables. Each cell is modelled as a function on the record
  \<open>notebook\<close> of the globals and of the outside world (the S3 bucket, the endpoint, the
  local files) that the properties below speak about. A cell returns the exception it raised, if
  any, together with the state it leaves behind: in a notebook the globals assigned before
  an exception stay assigned.

  The answers of the hosted services are parameters (\<open>services\<close>): the model fixes
  nothing about what Amazon Comprehend, S3 or the random generator answer.
\<close>

datatype py_error =
    UserWarning
  | TypeError
  | KeyError
  | NameError
  | ValueError
  | FileNotFoundError
  | AttributeError
  | ClientError
  | PollingTimeoutError

text \<open>
  The JSON-like values of a boto3 response: strings, dictionaries and lists. A dictionary
  is an association list read with \<open>map_of\<close>.
\<close>

datatype pyval =
    Str string
  | Dict "(string \<times> pyval) list"
  | PyList "pyval list"

type_synonym pydict = "(string \<times> pyval) list"

text \<open>\<^verbatim>\<open>d.get(key, default)\<close> on a dictionary.\<close>

definition dict_get :: "pydict \<Rightarrow> string \<Rightarrow> pyval \<Rightarrow> pyval" where
  "dict_get d k dflt = (case map_of d k of None \<Rightarrow> dflt | Some v \<Rightarrow> v)"

text \<open>
  \<^verbatim>\<open>v[key]\<close> with a string key: a dictionary without the key raises KeyError, a list or
  a string raises TypeError (their indices must be integers).
\<close>

fun subscript :: "pyval \<Rightarrow> string \<Rightarrow> py_error + pyval" where
  "subscript (Dict d) k = (case map_of d k of None \<Rightarrow> Inl KeyError | Some v \<Rightarrow> Inr v)"
| "subscript (PyList xs) k = Inl TypeError"
| "subscript (Str s) k = Inl TypeError"

text \<open>What a run does to the outside, in order.\<close>

datatype event =
    DescribeJob
  | Sleep int
  | DownloadData string
  | Untar
  | ReadCsv string
  | Display
  | OpenFile string
  | PredictAsync
  | CheckOutput
  | DeleteEndpoint
  | DeleteObjects string
  | RemoveTree string

text \<open>A Python \<^verbatim>\<open>str\<close> is a sequence of Unicode code points, and \<^verbatim>\<open>len\<close> counts
  them: the text of an article is a list of code points. \<open>str\<close> writes a literal.\<close>

type_synonym pystr = "nat list"

definition str :: "string \<Rightarrow> pystr" where
  "str s = map of_char s"

text \<open>Rows of \<^verbatim>\<open>topic-terms.csv\<close>, of \<^verbatim>\<open>doc-topics.csv\<close> and of the merged table.
  Weights and proportions are read by their order only, so a finite float is modelled by
  the real number it denotes.\<close>

record topic_term =
  tt_topic :: int
  tt_term :: string
  tt_weight :: real

record doc_topic =
  docname :: string
  topic :: int
  proportion :: real

record result_row =
  r_docname :: string
  r_topic :: int
  r_proportion :: real
  r_term :: "string option"

text \<open>
  The outside of the script. \<open>describe_topics_detection_job sv k\<close> is what the service
  answers to the call made after \<open>k\<close> earlier calls of the polling cell: a response
  dictionary, or the exception the client raises. \<open>download_data\<close> stands for
  \<^verbatim>\<open>parse_s3_url\<close> and \<^verbatim>\<open>sm_session.download_data\<close> on the job's output URI,
  \<open>read_topic_terms\<close> and \<open>read_doc_topics\<close> for \<^verbatim>\<open>pd.read_csv\<close> on the two
  unpacked files. \<open>choice sv k\<close> is the random number behind the draw made after
  \<open>k\<close> earlier draws. \<open>output_ready sv k\<close> tells whether the check made after \<open>k\<close>
  earlier checks finds the output of the asynchronous inference.
\<close>

record services =
  describe_topics_detection_job :: "nat \<Rightarrow> py_error + pydict"
  download_data :: "string \<Rightarrow> py_error option"
  read_topic_terms :: "py_error + topic_term list"
  read_doc_topics :: "py_error + doc_topic list"
  choice :: "nat \<Rightarrow> nat"
  predict_async :: "pystr \<Rightarrow> py_error option"
  output_ready :: "nat \<Rightarrow> bool"
  inference_output :: string

text \<open>
  The globals of the notebook that the cells below assign (an unbound variable is
  \<open>None\<close>). \<open>result\<close> is the regular expression's match, kept as its group 1
  (\<open>None\<close> is Python's \<^verbatim>\<open>None\<close>); \<open>inputs\<close> is \<^verbatim>\<open>dict["inputs"]\<close>; the value that
  the last cell but one assigns to \<^verbatim>\<open>result\<close> again, the inference result, is kept apart
  as \<open>summary\<close>. Then the state of the random generator (\<open>draws\<close>: how many draws were made),
  the local files by path, the objects of the session's default bucket by key, whether the
  predictor's endpoint exists, and the events so far.
\<close>

record notebook =
  number_of_comprehend_status_checks :: int
  describe_topics_detection_job_result :: "pyval option"
  results :: "result_row list option"
  draws :: nat
  art :: "string option"
  result :: "pystr option"
  inputs :: "pystr option"
  summary :: "string option"
  files :: "string \<rightharpoonup> pystr"
  bucket :: "string \<rightharpoonup> string"
  endpoint :: bool
  trace :: "event list"

section \<open>The Comprehend status-polling cell\<close>

text \<open>
  \<^verbatim>\<open>
  number_of_comprehend_status_checks = 0
  maximum_comprehend_status_checks = 20
  comprehend_status_check_sleep = 60

  while number_of_comprehend_status_checks < maximum_comprehend_status_checks:
      describe_topics_detection_job_result = comprehend.describe_topics_detection_job(
          JobId=job_id
      ).get("TopicsDetectionJobProperties", [])
      number_of_comprehend_status_checks += 1
      print(f"Checking ... status is {describe_topics_detection_job_result['JobStatus']}")
      if describe_topics_detection_job_result['JobStatus'] == "COMPLETED":
          break
      sleep(comprehend_status_check_sleep)

  if describe_topics_detection_job_result['JobStatus'] != "COMPLETED":
      raise UserWarning(f"Waited ... seconds and Comprehend still not 'COMPLETED'")
  \<close>
\<close>

definition maximum_comprehend_status_checks :: int where
  "maximum_comprehend_status_checks = 20"

definition comprehend_status_check_sleep :: int where
  "comprehend_status_check_sleep = 60"

datatype flow = Continue | Break | Raise py_error

text \<open>One pass through the body of the \<^verbatim>\<open>while\<close>. The \<^verbatim>\<open>print\<close> evaluates
  \<^verbatim>\<open>describe_topics_detection_job_result['JobStatus']\<close> first, so a response without
  that field raises there, after the counter has been incremented. A call in which the
  client raises leaves the body before the assignment and the increment.\<close>

definition poll_body :: "services \<Rightarrow> notebook \<Rightarrow> flow \<times> notebook" where
  "poll_body sv s =
     (case describe_topics_detection_job sv (nat (number_of_comprehend_status_checks s)) of
        Inl e \<Rightarrow> (Raise e, s\<lparr>trace := trace s @ [DescribeJob]\<rparr>)
      | Inr response \<Rightarrow>
          (let s1 = s\<lparr>describe_topics_detection_job_result :=
                        Some (dict_get response ''TopicsDetectionJobProperties'' (PyList [])),
                      number_of_comprehend_status_checks :=
                        number_of_comprehend_status_checks s + 1,
                      trace := trace s @ [DescribeJob]\<rparr>
           in case subscript (dict_get response ''TopicsDetectionJobProperties'' (PyList []))
                     ''JobStatus'' of
                Inl e \<Rightarrow> (Raise e, s1)
              | Inr status \<Rightarrow>
                  if status = Str ''COMPLETED'' then (Break, s1)
                  else (Continue, s1\<lparr>trace := trace s1 @ [Sleep comprehend_status_check_sleep]\<rparr>)))"

function poll_while :: "services \<Rightarrow> notebook \<Rightarrow> py_error option \<times> notebook" where
  "poll_while sv s =
     (if number_of_comprehend_status_checks s < maximum_comprehend_status_checks then
        (case poll_body sv s of
           (Continue, s') \<Rightarrow> poll_while sv s'
         | (Break, s') \<Rightarrow> (None, s')
         | (Raise e, s') \<Rightarrow> (Some e, s'))
      else (None, s))"
  by pat_completeness auto
termination
  by (relation "measure (\<lambda>(sv, s). nat (maximum_comprehend_status_checks
                                           - number_of_comprehend_status_checks s))")
     (auto simp: poll_body_def Let_def split: sum.splits if_splits)

declare poll_while.simps [simp del]

text \<open>The test after the loop reads the variable again; it is unbound (NameError) only
  if the loop body never ran.\<close>

definition job_status :: "notebook \<Rightarrow> py_error + pyval" where
  "job_status s =
     (case describe_topics_detection_job_result s of
        None \<Rightarrow> Inl NameError
      | Some r \<Rightarrow> subscript r ''JobStatus'')"

definition poll_cell :: "services \<Rightarrow> notebook \<Rightarrow> py_error option \<times> notebook" where
  "poll_cell sv s =
     (case poll_while sv (s\<lparr>number_of_comprehend_status_checks := 0\<rparr>) of
        (Some e, s') \<Rightarrow> (Some e, s')
      | (None, s') \<Rightarrow>
          (case job_status s' of
             Inl e \<Rightarrow> (Some e, s')
           | Inr status \<Rightarrow>
               if status \<noteq> Str ''COMPLETED'' then (Some UserWarning, s') else (None, s')))"

text \<open>What the check made after \<open>k\<close> earlier checks observes as the job status: the value
  of \<^verbatim>\<open>describe_topics_detection_job_result['JobStatus']\<close>, or the exception that ends
  the check.\<close>

definition observed_status :: "services \<Rightarrow> nat \<Rightarrow> py_error + pyval" where
  "observed_status sv k =
     (case describe_topics_detection_job sv k of
        Inl e \<Rightarrow> Inl e
      | Inr response \<Rightarrow>
          subscript (dict_get response ''TopicsDetectionJobProperties'' (PyList [])) ''JobStatus'')"

definition keeps_waiting :: "services \<Rightarrow> nat \<Rightarrow> bool" where
  "keeps_waiting sv k =
     (case observed_status sv k of Inl e \<Rightarrow> False | Inr v \<Rightarrow> v \<noteq> Str ''COMPLETED'')"

text \<open>The events that a run from \<open>s\<close> to \<open>s'\<close> added.\<close>

definition events_since :: "notebook \<Rightarrow> notebook \<Rightarrow> event list" where
  "events_since s s' = drop (length (trace s)) (trace s')"

text \<open>The seconds that a sequence of events sleeps in all.\<close>

fun slept :: "event list \<Rightarrow> int" where
  "slept [] = 0"
| "slept (Sleep d # es) = d + slept es"
| "slept (e # es) = slept es"

section \<open>The download-and-parse cell\<close>

text \<open>
  \<^verbatim>\<open>
  if describe_topics_detection_job_result["JobStatus"] == "COMPLETED":
      output_url = sagemaker.s3.parse_s3_url(
          describe_topics_detection_job_result["OutputDataConfig"]["S3Uri"])
      sm_session.download_data("data", bucket=output_url[0], key_prefix=output_url[1])
      os.system("tar xvfz data/output.tar.gz -C data/")
      topics = (
          pd.read_csv("data/topic-terms.csv")
          .sort_values(["topic", "weight"], ascending=[True, False])
          .groupby(["topic"])["term"]
          .agg(lambda x: ", ".join(x))
      )
      docs = pd.read_csv("data/doc-topics.csv").sort_values(
          ["docname", "proportion"], ascending=[True, False])
      results = pd.merge(docs, topics, how="left", on="topic")
      display(results)
  \<close>
  \<^verbatim>\<open>sort_values\<close> on several columns is a stable lexicographic sort: \<open>sort_key\<close> on
  the tuple of the columns, a descending numeric column negated. \<^verbatim>\<open>groupby\<close> keeps the
  rows of a group in their order and lists the groups by ascending key. A left merge keeps
  the rows of the left table in their order, each paired with every right row of its key,
  or with a missing value when there is none.
\<close>

fun str_join :: "string \<Rightarrow> string list \<Rightarrow> string" where
  "str_join sep [] = []"
| "str_join sep [x] = x"
| "str_join sep (x # y # ys) = x @ sep @ str_join sep (y # ys)"

definition sort_topic_terms :: "topic_term list \<Rightarrow> topic_term list" where
  "sort_topic_terms rows = sort_key (\<lambda>r. (tt_topic r, - tt_weight r)) rows"

definition group_terms :: "topic_term list \<Rightarrow> (int \<times> string) list" where
  "group_terms rows =
     map (\<lambda>t. (t, str_join '', '' (map tt_term (filter (\<lambda>r. tt_topic r = t) rows))))
         (sort (remdups (map tt_topic rows)))"

definition topics_table :: "topic_term list \<Rightarrow> (int \<times> string) list" where
  "topics_table rows = group_terms (sort_topic_terms rows)"

definition sort_doc_topics :: "doc_topic list \<Rightarrow> doc_topic list" where
  "sort_doc_topics rows = sort_key (\<lambda>d. (docname d, - proportion d)) rows"

definition merged_row :: "doc_topic \<Rightarrow> string option \<Rightarrow> result_row" where
  "merged_row d tm =
     \<lparr>r_docname = docname d, r_topic = topic d, r_proportion = proportion d, r_term = tm\<rparr>"

definition merge_left :: "doc_topic list \<Rightarrow> (int \<times> string) list \<Rightarrow> result_row list" where
  "merge_left docs topics =
     concat (map (\<lambda>d. case filter (\<lambda>(t, tm). t = topic d) topics of
                         [] \<Rightarrow> [merged_row d None]
                       | ms \<Rightarrow> map (\<lambda>(t, tm). merged_row d (Some tm)) ms) docs)"

definition output_s3_uri :: "notebook \<Rightarrow> py_error + string" where
  "output_s3_uri s =
     (case describe_topics_detection_job_result s of
        None \<Rightarrow> Inl NameError
      | Some r \<Rightarrow>
          (case subscript r ''OutputDataConfig'' of
             Inl e \<Rightarrow> Inl e
           | Inr c \<Rightarrow>
               (case subscript c ''S3Uri'' of
                  Inl e \<Rightarrow> Inl e
                | Inr (Str uri) \<Rightarrow> Inr uri
                | Inr _ \<Rightarrow> Inl TypeError)))"

definition download_cell :: "services \<Rightarrow> notebook \<Rightarrow> py_error option \<times> notebook" where
  "download_cell sv s =
     (case job_status s of
        Inl e \<Rightarrow> (Some e, s)
      | Inr status \<Rightarrow>
          if status = Str ''COMPLETED'' then
            (case output_s3_uri s of
               Inl e \<Rightarrow> (Some e, s)
             | Inr uri \<Rightarrow>
                 (let s1 = s\<lparr>trace := trace s @ [DownloadData uri]\<rparr>
                  in case download_data sv uri of
                       Some e \<Rightarrow> (Some e, s1)
                     | None \<Rightarrow>
                         (let s2 = s1\<lparr>trace := trace s1 @ [Untar, ReadCsv ''data/topic-terms.csv'']\<rparr>
                          in case read_topic_terms sv of
                               Inl e \<Rightarrow> (Some e, s2)
                             | Inr tt \<Rightarrow>
                                 (let s3 = s2\<lparr>trace := trace s2 @ [ReadCsv ''data/doc-topics.csv'']\<rparr>
                                  in case read_doc_topics sv of
                                       Inl e \<Rightarrow> (Some e, s3)
                                     | Inr dt \<Rightarrow>
                                         (None, s3\<lparr>results := Some (merge_left (sort_doc_topics dt)
                                                                       (topics_table tt)),
                                                    trace := trace s3 @ [Display]\<rparr>)))))
          else (None, s))"

text \<open>Running the polling cell and then this one, as Run All does: a cell that raises
  stops the run.\<close>

definition poll_then_download :: "services \<Rightarrow> notebook \<Rightarrow> py_error option \<times> notebook" where
  "poll_then_download sv s =
     (case poll_cell sv s of
        (Some e, s') \<Rightarrow> (Some e, s')
      | (None, s') \<Rightarrow> download_cell sv s')"

section \<open>The article-selection cell\<close>

text \<open>
  \<^verbatim>\<open>
  result = None
  while result is None:
      art = sample(article_names, 1)[0]
      print(art)
      with open(f"data/raw/{art}", "r", encoding="utf-8", errors="replace") as f:
          text = f.read().replace("\n", " ").replace("\t", " ")
          result = re.search("Background (.{,1000})", text)

  dict = {"inputs": result.group(1)}
  \<close>
\<close>

definition article_names :: "string list" where
  "article_names =
     [''PMC1043862.txt'', ''PMC1054881.txt'', ''PMC1054888.txt'', ''PMC1064076.txt'',
      ''PMC1064081.txt'', ''PMC1064104.txt'', ''PMC1064852.txt'', ''PMC1064855.txt'',
      ''PMC1064860.txt'', ''PMC1064883.txt'', ''PMC1064892.txt'', ''PMC1064893.txt'',
      ''PMC1065049.txt'', ''PMC1065056.txt'', ''PMC1065057.txt'', ''PMC1065073.txt'',
      ''PMC1065100.txt'', ''PMC1065320.txt'', ''PMC1065326.txt'', ''PMC1069647.txt'',
      ''PMC1069665.txt'', ''PMC1073698.txt'', ''PMC1074343.txt'', ''PMC1074358.txt'',
      ''PMC1074751.txt'']"

text \<open>\<^verbatim>\<open>sample(population, 1)[0]\<close>: one element of the population, at the position the
  random number gives; an empty population raises ValueError.\<close>

definition sample_one :: "services \<Rightarrow> nat \<Rightarrow> 'a list \<Rightarrow> py_error + 'a" where
  "sample_one sv k population =
     (if population = [] then Inl ValueError
      else Inr (population ! (choice sv k mod length population)))"

text \<open>\<^verbatim>\<open>s.replace(old, new)\<close> for one-character \<open>old\<close> and \<open>new\<close>; the code points 10, 9
  and 32 are the newline, the tab and the space.\<close>

definition replace :: "nat \<Rightarrow> nat \<Rightarrow> pystr \<Rightarrow> pystr" where
  "replace old new s = map (\<lambda>c. if c = old then new else c) s"

definition flatten :: "pystr \<Rightarrow> pystr" where
  "flatten text = replace 9 32 (replace 10 32 text)"

text \<open>
  \<^verbatim>\<open>re.search("Background (.{,1000})", text)\<close>: the leftmost position where the pattern
  matches. At a position the pattern matches when the literal stands there; the group then
  takes greedily up to 1000 characters other than the newline, which \<^verbatim>\<open>.\<close> does not
  match. The match is kept as its group 1.
\<close>

definition match_at :: "pystr \<Rightarrow> pystr option" where
  "match_at t =
     (if prefix (str ''Background '') t
      then Some (take 1000 (takeWhile (\<lambda>c. c \<noteq> 10) (drop (length (str ''Background '')) t)))
      else None)"

fun re_search :: "pystr \<Rightarrow> pystr option" where
  "re_search [] = match_at []"
| "re_search (c # cs) =
     (case match_at (c # cs) of Some g \<Rightarrow> Some g | None \<Rightarrow> re_search cs)"

partial_function (option)
  article_while :: "services \<Rightarrow> notebook \<Rightarrow> (py_error option \<times> notebook) option" where
  [code]: "article_while sv s =
     (if result s = None then
        (case sample_one sv (draws s) article_names of
           Inl e \<Rightarrow> Some (Some e, s)
         | Inr a \<Rightarrow>
             (let s1 = s\<lparr>draws := draws s + 1, art := Some a,
                         trace := trace s @ [OpenFile (''data/raw/'' @ a)]\<rparr>
              in case files s1 (''data/raw/'' @ a) of
                   None \<Rightarrow> Some (Some FileNotFoundError, s1)
                 | Some text \<Rightarrow> article_while sv (s1\<lparr>result := re_search (flatten text)\<rparr>)))
      else Some (None, s))"

definition article_cell :: "services \<Rightarrow> notebook \<Rightarrow> (py_error option \<times> notebook) option" where
  "article_cell sv s =
     (case article_while sv (s\<lparr>result := None\<rparr>) of
        None \<Rightarrow> None
      | Some (Some e, s') \<Rightarrow> Some (Some e, s')
      | Some (None, s') \<Rightarrow>
          (case result s' of
             None \<Rightarrow> Some (Some AttributeError, s')
           | Some g \<Rightarrow> Some (None, s'\<lparr>inputs := Some g\<rparr>)))"

text \<open>The article that the draw made after \<open>k\<close> earlier draws gives, and whether the
  flattened text of an article's file contains the literal of the pattern (an article
  without a file has no text).\<close>

definition drawn :: "services \<Rightarrow> nat \<Rightarrow> string" where
  "drawn sv k = article_names ! (choice sv k mod length article_names)"

definition has_background :: "notebook \<Rightarrow> string \<Rightarrow> bool" where
  "has_background s a =
     (case files s (''data/raw/'' @ a) of
        None \<Rightarrow> False
      | Some text \<Rightarrow> sublist (str ''Background '') (flatten text))"

definition lacks_background :: "notebook \<Rightarrow> string \<Rightarrow> bool" where
  "lacks_background s a =
     (case files s (''data/raw/'' @ a) of
        None \<Rightarrow> False
      | Some text \<Rightarrow> \<not> sublist (str ''Background '') (flatten text))"

section \<open>The asynchronous inference cell\<close>

text \<open>
  \<^verbatim>\<open>
  async_response = predictor.predict_async(data=dict)
  waiter = WaiterConfig(max_attempts=24, delay=15)
  result = async_response.get_result(waiter)
  \<close>
\<close>

record waiter_config =
  max_attempts :: int
  delay :: int

definition waiter :: waiter_config where
  "waiter = \<lparr>max_attempts = 24, delay = 15\<rparr>"

text \<open>
  Modelled from the spec: \<^verbatim>\<open>get_result\<close> of the SageMaker SDK, which is not part of the
  repository. The spec has the asynchronous inference "waited on via a blocking poll": the
  output is checked, and while it is missing and attempts remain the caller sleeps for the
  delay and checks again; with no attempt left the wait ends with PollingTimeoutError.
  \<open>n\<close> is the number of checks made before.
\<close>

function get_result :: "services \<Rightarrow> waiter_config \<Rightarrow> int \<Rightarrow> notebook \<Rightarrow> py_error option \<times> notebook" where
  "get_result sv w n s =
     (let s1 = s\<lparr>trace := trace s @ [CheckOutput]\<rparr>
      in if output_ready sv (nat n) then (None, s1\<lparr>summary := Some (inference_output sv)\<rparr>)
         else if max_attempts w \<le> n + 1 then (Some PollingTimeoutError, s1)
         else get_result sv w (n + 1) (s1\<lparr>trace := trace s1 @ [Sleep (delay w)]\<rparr>))"
  by pat_completeness auto
termination
  by (relation "measure (\<lambda>(sv, w, n, s). nat (max_attempts w - n))") auto

declare get_result.simps [simp del]

definition predict_cell :: "services \<Rightarrow> notebook \<Rightarrow> py_error option \<times> notebook" where
  "predict_cell sv s =
     (case inputs s of
        None \<Rightarrow> (Some NameError, s)
      | Some d \<Rightarrow>
          (let s1 = s\<lparr>trace := trace s @ [PredictAsync]\<rparr>
           in case predict_async sv d of
                Some e \<Rightarrow> (Some e, s1)
              | None \<Rightarrow> get_result sv waiter 0 s1))"

section \<open>The clean-up cell\<close>

text \<open>
  \<^verbatim>\<open>
  predictor.delete_endpoint()
  bucket = boto_session.resource("s3").Bucket(s3_bucket)
  bucket.objects.filter(Prefix="sci-docs").delete()
  os.system(f"rm -rf data")
  \<close>
  Deleting an endpoint that does not exist raises the client's error, and the cell stops
  there. \<^verbatim>\<open>filter(Prefix=p)\<close> selects the objects whose key starts with \<open>p\<close>.
\<close>

definition delete_objects :: "string \<Rightarrow> (string \<rightharpoonup> string) \<Rightarrow> (string \<rightharpoonup> string)" where
  "delete_objects p b = (\<lambda>key. if prefix p key then None else b key)"

definition remove_tree :: "string \<Rightarrow> (string \<rightharpoonup> pystr) \<Rightarrow> (string \<rightharpoonup> pystr)" where
  "remove_tree dir fs = (\<lambda>path. if path = dir \<or> prefix (dir @ ''/'') path then None else fs path)"

definition cleanup_cell :: "notebook \<Rightarrow> py_error option \<times> notebook" where
  "cleanup_cell s =
     (let s1 = s\<lparr>trace := trace s @ [DeleteEndpoint]\<rparr>
      in if \<not> endpoint s1 then (Some ClientError, s1)
         else (None, s1\<lparr>endpoint := False,
                        bucket := delete_objects ''sci-docs'' (bucket s1),
                        files := remove_tree ''data'' (files s1),
                        trace := trace s1 @ [DeleteObjects ''sci-docs'', RemoveTree ''data'']\<rparr>))"

section \<open>Sample runs\<close>

text \<open>A kernel in which no cell has run, with nothing outside.\<close>

definition fresh :: notebook where
  "fresh = \<lparr>number_of_comprehend_status_checks = 0,
            describe_topics_detection_job_result = None, results = None, draws = 0,
            art = None, result = None, inputs = None, summary = None,
            files = Map.empty, bucket = Map.empty, endpoint = False, trace = []\<rparr>"

definition job_response :: "string \<Rightarrow> pydict" where
  "job_response status =
     [(''TopicsDetectionJobProperties'',
       Dict [(''JobStatus'', Str status),
             (''OutputDataConfig'', Dict [(''S3Uri'', Str ''s3://b/sci-docs/data/output/o.tar.gz'')])])]"

text \<open>Two topics over three terms, and three rows of document topics, one of them for a
  topic without terms.\<close>

definition sample_topic_terms :: "topic_term list" where
  "sample_topic_terms =
     [\<lparr>tt_topic = 1, tt_term = ''cell'', tt_weight = 1/4\<rparr>,
      \<lparr>tt_topic = 0, tt_term = ''gene'', tt_weight = 1/8\<rparr>,
      \<lparr>tt_topic = 1, tt_term = ''tumor'', tt_weight = 1/2\<rparr>]"

definition sample_doc_topics :: "doc_topic list" where
  "sample_doc_topics =
     [\<lparr>docname = ''b.txt'', topic = 1, proportion = 1\<rparr>,
      \<lparr>docname = ''a.txt'', topic = 0, proportion = 1/4\<rparr>,
      \<lparr>docname = ''a.txt'', topic = 7, proportion = 3/4\<rparr>]"

text \<open>A service that reports the job in progress twice and completed from the third check
  on, and whose output holds the tables above.\<close>

definition sample_services :: services where
  "sample_services =
     \<lparr>describe_topics_detection_job =
        (\<lambda>k. Inr (job_response (if k < 2 then ''IN_PROGRESS'' else ''COMPLETED''))),
      download_data = (\<lambda>uri. None),
      read_topic_terms = Inr sample_topic_terms,
      read_doc_topics = Inr sample_doc_topics,
      choice = (\<lambda>k. k),
      predict_async = (\<lambda>d. None),
      output_ready = (\<lambda>k. 2 \<le> k),
      inference_output = ''tldr''\<rparr>"

text \<open>A service whose job fails.\<close>

definition failing_services :: services where
  "failing_services =
     sample_services\<lparr>describe_topics_detection_job := (\<lambda>k. Inr (job_response ''FAILED''))\<rparr>"

text \<open>An article text with a background section, and a kernel after the download and the
  deployment: the first two articles have no background section, the third has one; the
  bucket holds an uploaded article and an object of another project.\<close>

definition sample_text :: pystr where
  "sample_text = str ''Title'' @ [10] @ str ''Background The gene'' @ [9] @ str ''x'' @ [10]"

definition sample_kernel :: notebook where
  "sample_kernel =
     fresh\<lparr>files := [''data/raw/PMC1043862.txt'' \<mapsto> str ''Methods only'',
                     ''data/raw/PMC1054881.txt'' \<mapsto> str ''Results'',
                     ''data/raw/PMC1054888.txt'' \<mapsto> sample_text],
           bucket := [''sci-docs/data/raw/PMC1043862.txt'' \<mapsto> ''Methods only'',
                      ''other/report.csv'' \<mapsto> ''1,2''],
           endpoint := True\<rparr>"

text \<open>Services whose clients raise.\<close>

definition broken_services :: services where
  "broken_services =
     sample_services\<lparr>describe_topics_detection_job := (\<lambda>k. Inl ClientError),
                      download_data := (\<lambda>uri. Some ClientError),
                      predict_async := (\<lambda>d. Some ClientError)\<rparr>"

section \<open>Properties\<close>

subsection \<open>The polling loop\<close>

lemma poll_body_waiting:
  assumes "keeps_waiting sv (nat (number_of_comprehend_status_checks s))"
  shows "\<exists>s1. poll_body sv s = (Continue, s1) \<and> number_of_comprehend_status_checks s1 = number_of_comprehend_status_checks s + 1
           \<and> trace s1 = trace s @ [DescribeJob, Sleep 60] \<and> results s1 = results s
           \<and> job_status s1 = observed_status sv (nat (number_of_comprehend_status_checks s))"
  using assms
  by (auto simp: keeps_waiting_def observed_status_def poll_body_def job_status_def Let_def
        comprehend_status_check_sleep_def split: sum.splits)

lemma poll_body_completed:
  assumes "observed_status sv (nat (number_of_comprehend_status_checks s)) = Inr (Str ''COMPLETED'')"
  shows "\<exists>s1. poll_body sv s = (Break, s1) \<and> number_of_comprehend_status_checks s1 = number_of_comprehend_status_checks s + 1
           \<and> trace s1 = trace s @ [DescribeJob] \<and> results s1 = results s
           \<and> job_status s1 = Inr (Str ''COMPLETED'')"
  using assms
  by (auto simp: observed_status_def poll_body_def job_status_def Let_def split: sum.splits)

lemma poll_body_raises:
  assumes "observed_status sv (nat (number_of_comprehend_status_checks s)) = Inl e"
  shows "\<exists>s1. poll_body sv s = (Raise e, s1)
           \<and> trace s1 = trace s @ [DescribeJob] \<and> results s1 = results s
           \<and> (number_of_comprehend_status_checks s1 = number_of_comprehend_status_checks s \<and> describe_topics_detection_job sv (nat (number_of_comprehend_status_checks s)) = Inl e \<or> number_of_comprehend_status_checks s1 = number_of_comprehend_status_checks s + 1)"
  using assms
  by (auto simp: observed_status_def poll_body_def job_status_def Let_def split: sum.splits)

lemma poll_while_waiting:
  assumes "\<forall>j. a \<le> j \<and> j < a + d \<longrightarrow> keeps_waiting sv j" and "number_of_comprehend_status_checks s = int a" and "a + d \<le> 20"
  shows "\<exists>s1. poll_while sv s = poll_while sv s1 \<and> number_of_comprehend_status_checks s1 = int (a + d)
           \<and> trace s1 = trace s @ concat (replicate d [DescribeJob, Sleep 60]) \<and> results s1 = results s
           \<and> (0 < d \<longrightarrow> job_status s1 = observed_status sv (a + d - 1))"
  using assms
proof (induction d arbitrary: s a)
  case 0
  then show ?case by (intro exI[of _ s]) auto
next
  case (Suc d)
  have kw: "keeps_waiting sv (nat (number_of_comprehend_status_checks s))" using Suc.prems by simp
  from poll_body_waiting[OF kw] obtain s1 where
    b: "poll_body sv s = (Continue, s1)" and c: "number_of_comprehend_status_checks s1 = number_of_comprehend_status_checks s + 1"
    and l: "trace s1 = trace s @ [DescribeJob, Sleep 60]" and r: "results s1 = results s"
    and j: "job_status s1 = observed_status sv (nat (number_of_comprehend_status_checks s))" by blast
  have lt: "number_of_comprehend_status_checks s < maximum_comprehend_status_checks"
    using Suc.prems by (simp add: maximum_comprehend_status_checks_def)
  have step: "poll_while sv s = poll_while sv s1"
    using lt b by (subst poll_while.simps) simp
  have "\<exists>s2. poll_while sv s1 = poll_while sv s2 \<and> number_of_comprehend_status_checks s2 = int (Suc a + d)
           \<and> trace s2 = trace s1 @ concat (replicate d [DescribeJob, Sleep 60]) \<and> results s2 = results s1
           \<and> (0 < d \<longrightarrow> job_status s2 = observed_status sv (Suc a + d - 1))"
    using Suc.prems c by (intro Suc.IH) auto
  then obtain s2 where s2: "poll_while sv s1 = poll_while sv s2" "number_of_comprehend_status_checks s2 = int (Suc a + d)"
     "trace s2 = trace s1 @ concat (replicate d [DescribeJob, Sleep 60])" "results s2 = results s1"
     "0 < d \<longrightarrow> job_status s2 = observed_status sv (Suc a + d - 1)" by blast
  have "d = 0 \<Longrightarrow> s2 = s1 \<or> True" by simp
  show ?case
  proof (cases "d = 0")
    case True
    then show ?thesis using step b c l r j Suc.prems
      by (intro exI[of _ s1]) auto
  next
    case False
    then show ?thesis using step s2 l r
      by (intro exI[of _ s2]) auto
  qed
qed

lemma first_stop:
  "\<exists>k\<le>n. (\<forall>j<k. keeps_waiting sv j) \<and> (k = n \<or> \<not> keeps_waiting sv k)"
proof (cases "\<exists>j<n. \<not> keeps_waiting sv j")
  case True
  define k where "k = (LEAST j. \<not> keeps_waiting sv j)"
  from True obtain j where j: "j < n" "\<not> keeps_waiting sv j" by blast
  have "\<not> keeps_waiting sv k" unfolding k_def using j(2) by (rule LeastI)
  moreover have "k \<le> j" unfolding k_def using j(2) by (rule Least_le)
  moreover have "\<forall>i<k. keeps_waiting sv i"
    unfolding k_def using not_less_Least by blast
  ultimately show ?thesis using j(1) by (intro exI[of _ k]) auto
next
  case False
  then show ?thesis by (intro exI[of _ n]) auto
qed

lemma poll_cell_cases:
  obtains
    (exhausted) s' where "\<forall>j<20. keeps_waiting sv j"
      and "poll_cell sv s = (Some UserWarning, s')" and "number_of_comprehend_status_checks s' = 20"
      and "trace s' = trace s @ concat (replicate 20 [DescribeJob, Sleep 60])"
      and "results s' = results s"
  | (completed) k s' where "k < 20" and "\<forall>j<k. keeps_waiting sv j"
      and "observed_status sv k = Inr (Str ''COMPLETED'')"
      and "poll_cell sv s = (None, s')" and "number_of_comprehend_status_checks s' = int k + 1"
      and "trace s' = trace s @ concat (replicate k [DescribeJob, Sleep 60]) @ [DescribeJob]"
      and "results s' = results s" and "job_status s' = Inr (Str ''COMPLETED'')"
  | (raised) k e s' where "k < 20" and "\<forall>j<k. keeps_waiting sv j"
      and "observed_status sv k = Inl e"
      and "poll_cell sv s = (Some e, s')"
      and "trace s' = trace s @ concat (replicate k [DescribeJob, Sleep 60]) @ [DescribeJob]"
      and "results s' = results s"
      and "number_of_comprehend_status_checks s' = int k \<and> describe_topics_detection_job sv k = Inl e \<or> number_of_comprehend_status_checks s' = int k + 1"
proof -
  let ?s0 = "s\<lparr>number_of_comprehend_status_checks := 0\<rparr>"
  from first_stop[of 20 sv] obtain k where k: "k \<le> 20" "\<forall>j<k. keeps_waiting sv j"
    "k = 20 \<or> \<not> keeps_waiting sv k" by blast
  have "\<exists>s1. poll_while sv ?s0 = poll_while sv s1 \<and> number_of_comprehend_status_checks s1 = int (0 + k)
           \<and> trace s1 = trace ?s0 @ concat (replicate k [DescribeJob, Sleep 60]) \<and> results s1 = results ?s0
           \<and> (0 < k \<longrightarrow> job_status s1 = observed_status sv (0 + k - 1))"
    using k by (intro poll_while_waiting) auto
  then obtain s1 where s1: "poll_while sv ?s0 = poll_while sv s1" "number_of_comprehend_status_checks s1 = int k"
     "trace s1 = trace s @ concat (replicate k [DescribeJob, Sleep 60])" "results s1 = results s"
     "0 < k \<longrightarrow> job_status s1 = observed_status sv (k - 1)" by auto
  show ?thesis
  proof (cases "k = 20")
    case True
    have "poll_while sv s1 = (None, s1)"
      using s1(2) True by (subst poll_while.simps) (simp add: maximum_comprehend_status_checks_def)
    moreover have "keeps_waiting sv 19" using k(2) True by simp
    then obtain v where "observed_status sv 19 = Inr v" "v \<noteq> Str ''COMPLETED''"
      by (auto simp: keeps_waiting_def split: sum.splits)
    then have "job_status s1 = Inr v" "v \<noteq> Str ''COMPLETED''" using s1(5) True by auto
    ultimately have "poll_cell sv s = (Some UserWarning, s1)"
      using s1(1) by (simp add: poll_cell_def)
    then show ?thesis using k s1 True by (intro exhausted[of s1]) auto
  next
    case False
    then have lt: "k < 20" and nk: "\<not> keeps_waiting sv k" using k by auto
    have lt': "number_of_comprehend_status_checks s1 < maximum_comprehend_status_checks"
      using lt s1(2) by (simp add: maximum_comprehend_status_checks_def)
    show ?thesis
    proof (cases "observed_status sv k")
      case (Inl e)
      then have "observed_status sv (nat (number_of_comprehend_status_checks s1)) = Inl e" using s1(2) by simp
      from poll_body_raises[OF this] obtain s2 where s2: "poll_body sv s1 = (Raise e, s2)"
        "trace s2 = trace s1 @ [DescribeJob]" "results s2 = results s1"
        "number_of_comprehend_status_checks s2 = number_of_comprehend_status_checks s1 \<and> describe_topics_detection_job sv (nat (number_of_comprehend_status_checks s1)) = Inl e \<or> number_of_comprehend_status_checks s2 = number_of_comprehend_status_checks s1 + 1"
        by blast
      have "poll_while sv s1 = (Some e, s2)"
        using lt' s2(1) by (subst poll_while.simps) simp
      then have "poll_cell sv s = (Some e, s2)" using s1(1) by (simp add: poll_cell_def)
      then show ?thesis using k(1,2) lt Inl s2 s1 by (intro raised[of k e s2]) auto
    next
      case (Inr v)
      then have v: "v = Str ''COMPLETED''" using nk by (simp add: keeps_waiting_def)
      then have "observed_status sv (nat (number_of_comprehend_status_checks s1)) = Inr (Str ''COMPLETED'')" using Inr s1(2) by simp
      from poll_body_completed[OF this] obtain s2 where s2: "poll_body sv s1 = (Break, s2)"
        "number_of_comprehend_status_checks s2 = number_of_comprehend_status_checks s1 + 1" "trace s2 = trace s1 @ [DescribeJob]" "results s2 = results s1"
        "job_status s2 = Inr (Str ''COMPLETED'')" by blast
      have "poll_while sv s1 = (None, s2)"
        using lt' s2(1) by (subst poll_while.simps) simp
      then have "poll_cell sv s = (None, s2)" using s1(1) s2(5) by (simp add: poll_cell_def)
      then show ?thesis using k(1,2) lt Inr v s2 s1 by (intro completed[of k s2]) auto
    qed
  qed
qed

lemma count_poll_rounds:
  "count_list (concat (replicate k [DescribeJob, Sleep m])) DescribeJob = k"
  by (induction k) auto

lemma prefix_poll_rounds:
  "k < n \<Longrightarrow> prefix (concat (replicate k [DescribeJob, Sleep m]) @ [DescribeJob]) (concat (replicate n [DescribeJob, Sleep m]))"
proof (induction k arbitrary: n)
  case 0
  then obtain n' where "n = Suc n'" by (cases n) auto
  then show ?case by simp
next
  case (Suc k)
  then obtain n' where n: "n = Suc n'" "k < n'" by (cases n) auto
  show ?case using Suc.IH[OF n(2)] n(1) by simp
qed

text \<open>
  C1. The polling cell raises an error exactly when none of the status checks it makes
  observes the status "COMPLETED". A check that observes "COMPLETED" is the last one: the
  loop stops there and the cell raises nothing. When all
  \<open>maximum_comprehend_status_checks\<close> checks observe a status other than "COMPLETED",
  whatever it is, the cell raises UserWarning.
\<close>

theorem poll_raises_iff_never_completed:
  assumes "poll_cell sv s = (r, s')"
  shows "(r \<noteq> None \<longleftrightarrow>
            (\<forall>k < count_list (events_since s s') DescribeJob.
                observed_status sv k \<noteq> Inr (Str ''COMPLETED'')))
       \<and> (\<forall>k < count_list (events_since s s') DescribeJob.
            observed_status sv k = Inr (Str ''COMPLETED'') \<longrightarrow>
              r = None \<and> count_list (events_since s s') DescribeJob = k + 1
              \<and> last (events_since s s') = DescribeJob)
       \<and> ((\<forall>k < nat maximum_comprehend_status_checks.
              \<exists>v. observed_status sv k = Inr v \<and> v \<noteq> Str ''COMPLETED'') \<longrightarrow>
            r = Some UserWarning
            \<and> count_list (events_since s s') DescribeJob = nat maximum_comprehend_status_checks)"
proof -
  have kw: "\<And>j. keeps_waiting sv j \<longleftrightarrow> (\<exists>v. observed_status sv j = Inr v \<and> v \<noteq> Str ''COMPLETED'')"
    by (auto simp: keeps_waiting_def split: sum.splits)
  show ?thesis
  proof (cases rule: poll_cell_cases[of sv s])
    case (exhausted t)
    then have r: "r = Some UserWarning" and ev: "events_since s s' = concat (replicate 20 [DescribeJob, Sleep 60])"
      using assms by (auto simp: events_since_def)
    have n: "count_list (events_since s s') DescribeJob = 20"
      unfolding ev by (rule count_poll_rounds)
    have nc: "\<forall>j<20. observed_status sv j \<noteq> Inr (Str ''COMPLETED'')"
      using exhausted(1) kw by auto
    show ?thesis using r n nc by (simp add: maximum_comprehend_status_checks_def)
  next
    case (completed k t)
    then have r: "r = None" and ev: "events_since s s' = concat (replicate k [DescribeJob, Sleep 60]) @ [DescribeJob]"
      using assms by (auto simp: events_since_def)
    have nc: "\<forall>j<k. observed_status sv j \<noteq> Inr (Str ''COMPLETED'')"
      using completed(2) kw by auto
    have n: "count_list (events_since s s') DescribeJob = k + 1"
      unfolding ev by (simp add: count_poll_rounds)
    have l: "last (events_since s s') = DescribeJob" unfolding ev by simp
    have one: "\<And>j. j < k + 1 \<Longrightarrow> observed_status sv j = Inr (Str ''COMPLETED'') \<Longrightarrow> j = k"
      using nc by (metis less_Suc_eq Suc_eq_plus1)
    have "\<not> (\<forall>j < nat maximum_comprehend_status_checks.
              \<exists>v. observed_status sv j = Inr v \<and> v \<noteq> Str ''COMPLETED'')"
      using completed(1,3) by (auto simp: maximum_comprehend_status_checks_def)
    then show ?thesis using r n l completed(3) one by auto
  next
    case (raised k e t)
    then have r: "r = Some e" and ev: "events_since s s' = concat (replicate k [DescribeJob, Sleep 60]) @ [DescribeJob]"
      using assms by (auto simp: events_since_def)
    have nc: "\<forall>j<k. observed_status sv j \<noteq> Inr (Str ''COMPLETED'')"
      using raised(2) kw by auto
    have n: "count_list (events_since s s') DescribeJob = k + 1"
      unfolding ev by (simp add: count_poll_rounds)
    have "\<And>j. j < k + 1 \<Longrightarrow> observed_status sv j \<noteq> Inr (Str ''COMPLETED'')"
      using nc raised(3) by (metis less_Suc_eq Suc_eq_plus1 sum.distinct(1))
    moreover have "\<not> (\<forall>j < nat maximum_comprehend_status_checks.
              \<exists>v. observed_status sv j = Inr v \<and> v \<noteq> Str ''COMPLETED'')"
      using raised(1,3) by (auto simp: maximum_comprehend_status_checks_def)
    ultimately show ?thesis using r n by auto
  qed
qed

theorem poll_raises_iff_never_completed_witness:
  "observed_status sample_services 2 = Inr (Str ''COMPLETED'')
   \<and> fst (poll_cell sample_services fresh) = None
   \<and> count_list (events_since fresh (snd (poll_cell sample_services fresh))) DescribeJob = 3
   \<and> fst (poll_cell failing_services fresh) = Some UserWarning"
proof -
  have run: "poll_cell sample_services fresh
      = (fst (poll_cell sample_services fresh), snd (poll_cell sample_services fresh))"
    by simp
  have n: "count_list (events_since fresh (snd (poll_cell sample_services fresh))) DescribeJob = 3"
    by code_simp
  have o: "observed_status sample_services 2 = Inr (Str ''COMPLETED'')"
    by code_simp
  have a: "fst (poll_cell sample_services fresh) = None"
    using poll_raises_iff_never_completed [OF run] n o by auto
  have run': "poll_cell failing_services fresh
      = (fst (poll_cell failing_services fresh), snd (poll_cell failing_services fresh))"
    by simp
  have f: "\<forall>k < nat maximum_comprehend_status_checks.
      \<exists>v. observed_status failing_services k = Inr v \<and> v \<noteq> Str ''COMPLETED''"
    by (simp add: observed_status_def failing_services_def sample_services_def job_response_def
        dict_get_def)
  have b: "fst (poll_cell failing_services fresh) = Some UserWarning"
    using poll_raises_iff_never_completed [OF run'] f by blast
  show ?thesis using o a n b by simp
qed

text \<open>
  C2. The polling cell always returns (\<open>poll_while\<close> is a total function, by its
  termination proof, and the statement gives the result of each run). The events of a run
  are an initial segment of twenty rounds of one status check followed by one sleep of
  \<open>comprehend_status_check_sleep\<close> = 60 seconds: at most
  \<open>maximum_comprehend_status_checks\<close> = 20 calls of
  \<^verbatim>\<open>describe_topics_detection_job\<close>, and exactly one sleep of 60 seconds between two
  consecutive calls. The counter ends as the number of calls made, one increment for each
  pass of the body; only a call in which the client itself raises leaves the body before
  the increment.
\<close>

theorem poll_bounded:
  "(\<exists>r s' L. poll_cell sv s = (r, s') \<and> trace s' = trace s @ L
      \<and> prefix L (concat (replicate (nat maximum_comprehend_status_checks)
                             [DescribeJob, Sleep comprehend_status_check_sleep]))
      \<and> count_list L DescribeJob \<le> nat maximum_comprehend_status_checks
      \<and> (number_of_comprehend_status_checks s' = int (count_list L DescribeJob)
           \<or> (\<exists>e. r = Some e
                \<and> describe_topics_detection_job sv (nat (number_of_comprehend_status_checks s')) = Inl e
                \<and> number_of_comprehend_status_checks s' + 1 = int (count_list L DescribeJob))))
   \<and> (\<forall>t. number_of_comprehend_status_checks (snd (poll_body sv t))
             = number_of_comprehend_status_checks t + 1
          \<or> (\<exists>e. describe_topics_detection_job sv (nat (number_of_comprehend_status_checks t))
                   = Inl e
                \<and> fst (poll_body sv t) = Raise e
                \<and> number_of_comprehend_status_checks (snd (poll_body sv t))
                   = number_of_comprehend_status_checks t))"
proof (rule conjI)
  show "\<forall>t. number_of_comprehend_status_checks (snd (poll_body sv t))
             = number_of_comprehend_status_checks t + 1
          \<or> (\<exists>e. describe_topics_detection_job sv (nat (number_of_comprehend_status_checks t))
                   = Inl e
                \<and> fst (poll_body sv t) = Raise e
                \<and> number_of_comprehend_status_checks (snd (poll_body sv t))
                   = number_of_comprehend_status_checks t)"
    by (auto simp: poll_body_def Let_def split: sum.splits)
next
  show "\<exists>r s' L. poll_cell sv s = (r, s') \<and> trace s' = trace s @ L
      \<and> prefix L (concat (replicate (nat maximum_comprehend_status_checks)
                             [DescribeJob, Sleep comprehend_status_check_sleep]))
      \<and> count_list L DescribeJob \<le> nat maximum_comprehend_status_checks
      \<and> (number_of_comprehend_status_checks s' = int (count_list L DescribeJob)
           \<or> (\<exists>e. r = Some e
                \<and> describe_topics_detection_job sv (nat (number_of_comprehend_status_checks s')) = Inl e
                \<and> number_of_comprehend_status_checks s' + 1 = int (count_list L DescribeJob)))"
  proof (cases rule: poll_cell_cases[of sv s])
    case (exhausted t)
    show ?thesis
      apply (rule exI[of _ "Some UserWarning"], rule exI[of _ t],
          rule exI[of _ "concat (replicate 20 [DescribeJob, Sleep 60])"])
      using exhausted by (simp add: count_poll_rounds maximum_comprehend_status_checks_def
          comprehend_status_check_sleep_def)
  next
    case (completed k t)
    show ?thesis
      apply (rule exI[of _ "None"], rule exI[of _ t],
          rule exI[of _ "concat (replicate k [DescribeJob, Sleep 60]) @ [DescribeJob]"])
      using completed prefix_poll_rounds[of k 20 60]
      by (simp add: count_poll_rounds maximum_comprehend_status_checks_def
          comprehend_status_check_sleep_def)
  next
    case (raised k e t)
    show ?thesis
      apply (rule exI[of _ "Some e"], rule exI[of _ t],
          rule exI[of _ "concat (replicate k [DescribeJob, Sleep 60]) @ [DescribeJob]"])
      using raised prefix_poll_rounds[of k 20 60]
      by (auto simp add: count_poll_rounds maximum_comprehend_status_checks_def
          comprehend_status_check_sleep_def)
  qed
qed

theorem poll_bounded_witness:
  "trace (snd (poll_cell sample_services fresh))
     = [DescribeJob, Sleep 60, DescribeJob, Sleep 60, DescribeJob]
   \<and> prefix (trace (snd (poll_cell sample_services fresh)))
        (concat (replicate 20 [DescribeJob, Sleep 60]))
   \<and> number_of_comprehend_status_checks (snd (poll_cell sample_services fresh)) = 3"
proof -
  have t: "trace (snd (poll_cell sample_services fresh))
     = [DescribeJob, Sleep 60, DescribeJob, Sleep 60, DescribeJob]"
    by code_simp
  have c: "number_of_comprehend_status_checks (snd (poll_cell sample_services fresh)) = 3"
    by code_simp
  from poll_bounded [of sample_services fresh] obtain r s' L where
    run: "poll_cell sample_services fresh = (r, s')" and l: "trace s' = trace fresh @ L"
    and p: "prefix L (concat (replicate (nat maximum_comprehend_status_checks)
                             [DescribeJob, Sleep comprehend_status_check_sleep]))"
    by blast
  have "L = trace (snd (poll_cell sample_services fresh))"
    using run l by (simp add: fresh_def)
  with p have "prefix (trace (snd (poll_cell sample_services fresh)))
        (concat (replicate 20 [DescribeJob, Sleep 60]))"
    by (simp add: maximum_comprehend_status_checks_def comprehend_status_check_sleep_def)
  with t c show ?thesis by simp
qed

subsection \<open>The download guard\<close>

lemma download_cell_keeps_status:
  "describe_topics_detection_job_result (snd (download_cell sv s))
     = describe_topics_detection_job_result s"
  by (simp add: download_cell_def Let_def split: sum.splits option.splits)

lemma download_cell_guard:
  "job_status s \<noteq> Inr (Str ''COMPLETED'') \<Longrightarrow> snd (download_cell sv s) = s"
  by (simp add: download_cell_def split: sum.splits)

lemma poll_rounds_events:
  "set (concat (replicate k [DescribeJob, Sleep m])) \<subseteq> {DescribeJob, Sleep m}"
  by (induction k) auto

text \<open>
  C3. The results are downloaded and parsed only after a check has observed "COMPLETED".
  A run of the download cell in a state whose last observed status is not "COMPLETED"
  (or is missing) changes nothing: no download, no unpacking, no CSV is read, no results
  table is assigned. A run of the polling cell followed by the download cell that ends
  with a last observed status other than "COMPLETED" has raised, has left \<open>results\<close> as
  it was, and has done nothing but status checks and sleeps.
\<close>

theorem download_only_after_completed:
  "(job_status t \<noteq> Inr (Str ''COMPLETED'') \<longrightarrow> snd (download_cell sv t) = t)
   \<and> (poll_then_download sv s = (r, s') \<and> job_status s' \<noteq> Inr (Str ''COMPLETED'') \<longrightarrow>
        r \<noteq> None \<and> results s' = results s
        \<and> set (events_since s s') \<subseteq> {DescribeJob, Sleep comprehend_status_check_sleep})"
proof (intro conjI impI)
  assume "job_status t \<noteq> Inr (Str ''COMPLETED'')"
  then show "snd (download_cell sv t) = t" by (rule download_cell_guard)
next
  assume a: "poll_then_download sv s = (r, s') \<and> job_status s' \<noteq> Inr (Str ''COMPLETED'')"
  have "r \<noteq> None \<and> results s' = results s
        \<and> set (events_since s s') \<subseteq> {DescribeJob, Sleep comprehend_status_check_sleep}"
  proof (cases rule: poll_cell_cases[of sv s])
    case (exhausted t)
    then have "r = Some UserWarning" "s' = t" using a by (auto simp: poll_then_download_def)
    then show ?thesis using exhausted(4,5) poll_rounds_events[of 20 60]
      by (simp add: events_since_def comprehend_status_check_sleep_def)
  next
    case (completed k t)
    then have "s' = snd (download_cell sv t)" using a by (auto simp: poll_then_download_def)
    then have "job_status s' = job_status t"
      by (simp add: job_status_def download_cell_keeps_status)
    then show ?thesis using a completed(8) by simp
  next
    case (raised k e t)
    then have "r = Some e" "s' = t" using a by (auto simp: poll_then_download_def)
    then show ?thesis using raised(5,6) poll_rounds_events[of k 60]
      by (auto simp: events_since_def comprehend_status_check_sleep_def)
  qed
  then show "r \<noteq> None" and "results s' = results s"
    and "set (events_since s s') \<subseteq> {DescribeJob, Sleep comprehend_status_check_sleep}" by auto
qed

theorem download_only_after_completed_witness:
  "job_status (snd (poll_then_download failing_services fresh)) = Inr (Str ''FAILED'')
   \<and> results (snd (poll_then_download failing_services fresh)) = None
   \<and> snd (download_cell failing_services (snd (poll_then_download failing_services fresh)))
       = snd (poll_then_download failing_services fresh)"
proof -
  let ?s' = "snd (poll_then_download failing_services fresh)"
  have j: "job_status ?s' = Inr (Str ''FAILED'')" by code_simp
  then have n: "job_status ?s' \<noteq> Inr (Str ''COMPLETED'')" by simp
  have run: "poll_then_download failing_services fresh
      = (fst (poll_then_download failing_services fresh), ?s')" by simp
  have "results ?s' = results fresh"
    using download_only_after_completed [of ?s' failing_services fresh
        "fst (poll_then_download failing_services fresh)" ?s'] run n by blast
  moreover have "snd (download_cell failing_services ?s') = ?s'"
    using download_only_after_completed [of ?s' failing_services fresh
        "fst (poll_then_download failing_services fresh)" ?s'] n by blast
  ultimately show ?thesis using j by (simp add: fresh_def)
qed

subsection \<open>The topics table and the merge\<close>

lemma group_terms_keys: "map fst (group_terms rows) = sort (remdups (map tt_topic rows))"
  by (simp add: group_terms_def comp_def)

lemma topics_table_distinct: "distinct (map fst (topics_table rows))"
  by (simp add: topics_table_def group_terms_keys)

lemma topics_table_topics: "fst ` set (topics_table rows) = tt_topic ` set rows"
proof -
  have "set (map fst (topics_table rows)) = tt_topic ` set rows"
    unfolding topics_table_def group_terms_keys by (simp add: sort_topic_terms_def)
  then show ?thesis by simp
qed

lemma sorted_topic_terms_by_weight:
  "sorted_wrt (\<lambda>a b. tt_weight b \<le> tt_weight a)
     (filter (\<lambda>r. tt_topic r = t) (sort_topic_terms rows))"
proof -
  let ?key = "\<lambda>r. (tt_topic r, - tt_weight r)"
  have "sorted (map ?key (sort_key ?key rows))" by (rule sorted_sort_key)
  then have "sorted_wrt (\<lambda>a b. ?key a \<le> ?key b) (sort_key ?key rows)"
    by (simp add: sorted_map)
  then have "sorted_wrt (\<lambda>a b. ?key a \<le> ?key b)
      (filter (\<lambda>r. tt_topic r = t) (sort_key ?key rows))"
    by (rule sorted_wrt_filter)
  then show ?thesis
    unfolding sort_topic_terms_def
    by (rule sorted_wrt_mono_rel[rotated]) (auto simp: less_eq_prod_def)
qed

text \<open>
  C10. In the aggregated topics table every topic of the topic-terms table has an entry,
  and the string of an entry is the \<open>", "\<close>-join of the terms of exactly the rows of
  that topic, listed in non-increasing order of weight.
\<close>

theorem terms_in_weight_order:
  "(\<forall>t \<in> tt_topic ` set rows. \<exists>s. (t, s) \<in> set (topics_table rows))
   \<and> (\<forall>(t, s) \<in> set (topics_table rows).
        \<exists>rs. s = str_join '', '' (map tt_term rs)
           \<and> mset rs = filter_mset (\<lambda>r. tt_topic r = t) (mset rows)
           \<and> sorted_wrt (\<lambda>a b. tt_weight b \<le> tt_weight a) rs)"
proof (intro conjI ballI)
  fix t assume "t \<in> tt_topic ` set rows"
  then have "t \<in> fst ` set (topics_table rows)" by (simp add: topics_table_topics)
  then show "\<exists>s. (t, s) \<in> set (topics_table rows)" by force
next
  fix p assume p: "p \<in> set (topics_table rows)"
  obtain t s where ts: "p = (t, s)" by (cases p)
  let ?rs = "filter (\<lambda>r. tt_topic r = t) (sort_topic_terms rows)"
  have "s = str_join '', '' (map tt_term ?rs)"
    using p ts by (auto simp: topics_table_def group_terms_def)
  moreover have "mset ?rs = filter_mset (\<lambda>r. tt_topic r = t) (mset rows)"
    by (simp add: sort_topic_terms_def)
  moreover have "sorted_wrt (\<lambda>a b. tt_weight b \<le> tt_weight a) ?rs"
    by (rule sorted_topic_terms_by_weight)
  ultimately show "case p of (t, s) \<Rightarrow>
        \<exists>rs. s = str_join '', '' (map tt_term rs)
           \<and> mset rs = filter_mset (\<lambda>r. tt_topic r = t) (mset rows)
           \<and> sorted_wrt (\<lambda>a b. tt_weight b \<le> tt_weight a) rs"
    unfolding ts by blast
qed

theorem terms_in_weight_order_witness:
  "(1, ''tumor, cell'') \<in> set (topics_table sample_topic_terms)
   \<and> (\<exists>rs. ''tumor, cell'' = str_join '', '' (map tt_term rs)
           \<and> mset rs = filter_mset (\<lambda>r. tt_topic r = 1) (mset sample_topic_terms)
           \<and> sorted_wrt (\<lambda>a b. tt_weight b \<le> tt_weight a) rs)"
proof -
  have m: "(1, ''tumor, cell'') \<in> set (topics_table sample_topic_terms)"
    by code_simp
  show ?thesis using terms_in_weight_order [of sample_topic_terms] m by blast
qed

lemma filter_key_distinct:
  "distinct (map fst kvs) \<Longrightarrow>
     filter (\<lambda>(t, tm). t = k) kvs = (case map_of kvs k of None \<Rightarrow> [] | Some tm \<Rightarrow> [(k, tm)])"
proof (induction kvs)
  case Nil
  then show ?case by simp
next
  case (Cons kv kvs)
  obtain a b where kv: "kv = (a, b)" by (cases kv)
  show ?case
  proof (cases "a = k")
    case True
    then have "k \<notin> fst ` set kvs" using Cons.prems kv by auto
    then have "filter (\<lambda>(t, tm). t = k) kvs = []"
      by (force simp: filter_empty_conv)
    then show ?thesis using True kv by simp
  next
    case False
    then show ?thesis using Cons kv by simp
  qed
qed

lemma merge_left_distinct:
  assumes "distinct (map fst topics)"
  shows "merge_left docs topics = map (\<lambda>d. merged_row d (map_of topics (topic d))) docs"
proof -
  have "\<And>d. (case filter (\<lambda>(t, tm). t = topic d) topics of
                         [] \<Rightarrow> [merged_row d None]
                       | ms \<Rightarrow> map (\<lambda>(t, tm). merged_row d (Some tm)) ms)
        = [merged_row d (map_of topics (topic d))]"
    by (simp add: filter_key_distinct[OF assms] split: option.splits)
  then show ?thesis by (simp add: merge_left_def)
qed

text \<open>
  C4. The results table is the left join of the document-topics table with the
  aggregated topics table on the topic: it has exactly one row for each row of the
  (sorted) document-topics table, in that order, with the document name, the topic and the
  proportion of that row and the term string of its topic. The rows of the results,
  without the term, are the rows of \<^verbatim>\<open>doc-topics.csv\<close> as a multiset; the aggregated
  table has one row for each topic; and a row whose topic has no entry there appears with
  a missing term.
\<close>

theorem results_left_join:
  assumes "download_cell sv s = (None, s')"
    and "job_status s = Inr (Str ''COMPLETED'')"
    and "read_doc_topics sv = Inr dt" and "read_topic_terms sv = Inr tt"
  shows "\<exists>rs. results s' = Some rs
      \<and> rs = map (\<lambda>d. merged_row d (map_of (topics_table tt) (topic d))) (sort_doc_topics dt)
      \<and> image_mset (\<lambda>r. (r_docname r, r_topic r, r_proportion r)) (mset rs)
          = image_mset (\<lambda>d. (docname d, topic d, proportion d)) (mset dt)
      \<and> distinct (map fst (topics_table tt))
      \<and> (\<forall>d \<in> set dt. topic d \<notin> fst ` set (topics_table tt) \<longrightarrow> merged_row d None \<in> set rs)"
proof -
  let ?rs = "map (\<lambda>d. merged_row d (map_of (topics_table tt) (topic d))) (sort_doc_topics dt)"
  have "results s' = Some (merge_left (sort_doc_topics dt) (topics_table tt))"
    using assms
    by (auto simp: download_cell_def Let_def split: sum.splits option.splits if_splits)
  then have r: "results s' = Some ?rs"
    by (simp add: merge_left_distinct[OF topics_table_distinct])
  have m: "mset (sort_doc_topics dt) = mset dt" by (simp add: sort_doc_topics_def)
  have "image_mset (\<lambda>r. (r_docname r, r_topic r, r_proportion r)) (mset ?rs)
      = image_mset (\<lambda>d. (docname d, topic d, proportion d)) (mset (sort_doc_topics dt))"
    by (simp add: merged_row_def comp_def flip: mset_map)
  then have i: "image_mset (\<lambda>r. (r_docname r, r_topic r, r_proportion r)) (mset ?rs)
      = image_mset (\<lambda>d. (docname d, topic d, proportion d)) (mset dt)"
    using m by simp
  have n: "\<forall>d \<in> set dt. topic d \<notin> fst ` set (topics_table tt) \<longrightarrow> merged_row d None \<in> set ?rs"
  proof (intro ballI impI)
    fix d assume d: "d \<in> set dt" "topic d \<notin> fst ` set (topics_table tt)"
    then have "map_of (topics_table tt) (topic d) = None" by (simp add: map_of_eq_None_iff)
    moreover have "d \<in> set (sort_doc_topics dt)" using d(1) by (simp add: sort_doc_topics_def)
    ultimately show "merged_row d None \<in> set ?rs" by force
  qed
  show ?thesis using r i n topics_table_distinct by blast
qed

theorem results_left_join_witness:
  "fst (download_cell sample_services (snd (poll_cell sample_services fresh))) = None
   \<and> results (snd (download_cell sample_services (snd (poll_cell sample_services fresh))))
       = Some [\<lparr>r_docname = ''a.txt'', r_topic = 7, r_proportion = 3/4, r_term = None\<rparr>,
               \<lparr>r_docname = ''a.txt'', r_topic = 0, r_proportion = 1/4, r_term = Some ''gene''\<rparr>,
               \<lparr>r_docname = ''b.txt'', r_topic = 1, r_proportion = 1,
                  r_term = Some ''tumor, cell''\<rparr>]"
proof -
  let ?s = "snd (poll_cell sample_services fresh)"
  have f: "fst (download_cell sample_services ?s) = None" by code_simp
  then have run: "download_cell sample_services ?s = (None, snd (download_cell sample_services ?s))"
    by (simp add: prod_eq_iff)
  have j: "job_status ?s = Inr (Str ''COMPLETED'')" by code_simp
  have d: "read_doc_topics sample_services = Inr sample_doc_topics"
    and t: "read_topic_terms sample_services = Inr sample_topic_terms"
    by (simp_all add: sample_services_def)
  have e: "map (\<lambda>d. merged_row d (map_of (topics_table sample_topic_terms) (topic d)))
             (sort_doc_topics sample_doc_topics)
       = [\<lparr>r_docname = ''a.txt'', r_topic = 7, r_proportion = 3/4, r_term = None\<rparr>,
               \<lparr>r_docname = ''a.txt'', r_topic = 0, r_proportion = 1/4, r_term = Some ''gene''\<rparr>,
               \<lparr>r_docname = ''b.txt'', r_topic = 1, r_proportion = 1,
                  r_term = Some ''tumor, cell''\<rparr>]"
    by code_simp
  show ?thesis using results_left_join [OF run j d t] f e by auto
qed

subsection \<open>The search for the background section\<close>

lemma flatten_no_newline_tab: "10 \<notin> set (flatten text) \<and> 9 \<notin> set (flatten text)"
  by (auto simp: flatten_def replace_def)

lemma match_at_Some:
  "match_at t = Some g \<longleftrightarrow>
     (\<exists>post. t = str ''Background '' @ post \<and> g = take 1000 (takeWhile (\<lambda>c. c \<noteq> 10) post))"
  by (auto simp: match_at_def prefix_def)

lemma match_at_None: "match_at t = None \<longleftrightarrow> \<not> prefix (str ''Background '') t"
  by (simp add: match_at_def)

lemma re_search_Some:
  "re_search t = Some g \<Longrightarrow>
     \<exists>pre post. t = pre @ str ''Background '' @ post
        \<and> g = take 1000 (takeWhile (\<lambda>c. c \<noteq> 10) post)
        \<and> (\<forall>pre' post'. t = pre' @ str ''Background '' @ post' \<longrightarrow> length pre \<le> length pre')"
proof (induction t)
  case Nil
  then show ?case by (simp add: match_at_def str_def)
next
  case (Cons c cs)
  show ?case
  proof (cases "match_at (c # cs)")
    case (Some g')
    then have "g' = g" using Cons.prems by simp
    then obtain post where "c # cs = str ''Background '' @ post"
      "g = take 1000 (takeWhile (\<lambda>c. c \<noteq> 10) post)"
      using Some by (auto simp: match_at_Some)
    then show ?thesis by (intro exI[of _ "[]"] exI[of _ post]) simp
  next
    case None
    then have np: "\<not> prefix (str ''Background '') (c # cs)" by (simp add: match_at_None)
    from None Cons.prems have "re_search cs = Some g" by simp
    from Cons.IH[OF this] obtain pre post where pp: "cs = pre @ str ''Background '' @ post"
      "g = take 1000 (takeWhile (\<lambda>c. c \<noteq> 10) post)"
      "\<forall>pre' post'. cs = pre' @ str ''Background '' @ post' \<longrightarrow> length pre \<le> length pre'"
      by blast
    have "\<forall>pre' post'. c # cs = pre' @ str ''Background '' @ post' \<longrightarrow> length (c # pre) \<le> length pre'"
    proof (intro allI impI)
      fix pre' post' assume e: "c # cs = pre' @ str ''Background '' @ post'"
      show "length (c # pre) \<le> length pre'"
      proof (cases pre')
        case Nil
        then have "prefix (str ''Background '') (c # cs)" using e by (simp add: prefix_def)
        then show ?thesis using np by simp
      next
        case (Cons x p)
        then have "cs = p @ str ''Background '' @ post'" using e by simp
        then have "length pre \<le> length p" using pp(3) by blast
        then show ?thesis using Cons by simp
      qed
    qed
    then show ?thesis using pp(1,2)
      by (intro exI[of _ "c # pre"] exI[of _ post]) simp
  qed
qed

lemma re_search_None: "re_search t = None \<longleftrightarrow> \<not> sublist (str ''Background '') t"
proof (induction t)
  case Nil
  then show ?case by (simp add: match_at_def str_def)
next
  case (Cons c cs)
  have "re_search (c # cs) = None \<longleftrightarrow> match_at (c # cs) = None \<and> re_search cs = None"
    by (simp split: option.splits)
  also have "\<dots> \<longleftrightarrow> \<not> prefix (str ''Background '') (c # cs) \<and> \<not> sublist (str ''Background '') cs"
    using Cons.IH by (simp add: match_at_None)
  also have "\<dots> \<longleftrightarrow> \<not> sublist (str ''Background '') (c # cs)"
    by (simp add: sublist_Cons_right)
  finally show ?case .
qed

lemma search_group:
  assumes "re_search (flatten text) = Some g"
  shows "length g \<le> 1000 \<and> 10 \<notin> set g \<and> 9 \<notin> set g
     \<and> (\<exists>pre post. flatten text = pre @ str ''Background '' @ post
           \<and> g = take 1000 post
           \<and> (\<forall>pre' post'. flatten text = pre' @ str ''Background '' @ post'
                 \<longrightarrow> length pre \<le> length pre'))"
proof -
  from re_search_Some[OF assms] obtain pre post where
    pp: "flatten text = pre @ str ''Background '' @ post"
      "g = take 1000 (takeWhile (\<lambda>c. c \<noteq> 10) post)"
      "\<forall>pre' post'. flatten text = pre' @ str ''Background '' @ post' \<longrightarrow> length pre \<le> length pre'"
    by blast
  have "set post \<subseteq> set (flatten text)" using pp(1) by auto
  then have np: "10 \<notin> set post" "9 \<notin> set post" using flatten_no_newline_tab[of "text"] by auto
  have tw: "takeWhile (\<lambda>c. c \<noteq> 10) post = post"
    using np(1) by (intro takeWhile_eq_all_conv[THEN iffD2]) auto
  have g: "g = take 1000 post" unfolding pp(2) tw ..
  have "set g \<subseteq> set post" unfolding g by (rule set_take_subset)
  then have "10 \<notin> set g" "9 \<notin> set g" using np by auto
  moreover have "length g \<le> 1000" unfolding g by simp
  ultimately show ?thesis using pp(1,3) g by blast
qed

subsection \<open>The article-selection loop\<close>

lemma length_article_names: "length article_names = 25"
  by (simp add: article_names_def)

lemma drawn_in_names: "drawn sv k \<in> set article_names"
  unfolding drawn_def by (rule nth_mem) (simp add: length_article_names)

lemma sample_one_drawn: "sample_one sv k article_names = Inr (drawn sv k)"
proof -
  have "article_names \<noteq> []" using length_article_names by auto
  then show ?thesis by (simp add: sample_one_def drawn_def)
qed

lemma lacks_backgroundD:
  "lacks_background s a \<Longrightarrow>
     \<exists>text. files s (''data/raw/'' @ a) = Some text \<and> re_search (flatten text) = None"
  by (auto simp: lacks_background_def re_search_None split: option.splits)

lemma has_backgroundD:
  "has_background s a \<Longrightarrow>
     \<exists>text g. files s (''data/raw/'' @ a) = Some text \<and> re_search (flatten text) = Some g"
proof -
  assume "has_background s a"
  then obtain content where t: "files s (''data/raw/'' @ a) = Some content"
    "sublist (str ''Background '') (flatten content)"
    by (auto simp: has_background_def split: option.splits)
  then have "re_search (flatten content) \<noteq> None" by (simp add: re_search_None)
  then show ?thesis using t(1) by auto
qed

text \<open>One pass of the loop on a drawn article without a match, and on one with a match.\<close>

lemma article_while_retry:
  assumes "result s = None" and "lacks_background s (drawn sv (draws s))"
  shows "article_while sv s =
     article_while sv (s\<lparr>draws := draws s + 1, art := Some (drawn sv (draws s)),
          trace := trace s @ [OpenFile (''data/raw/'' @ drawn sv (draws s))]\<rparr>)"
proof -
  let ?s1 = "s\<lparr>draws := draws s + 1, art := Some (drawn sv (draws s)),
          trace := trace s @ [OpenFile (''data/raw/'' @ drawn sv (draws s))]\<rparr>"
  from lacks_backgroundD[OF assms(2)] obtain content where
    t: "files s (''data/raw/'' @ drawn sv (draws s)) = Some content"
       "re_search (flatten content) = None"
    by blast
  have "article_while sv s = article_while sv (?s1\<lparr>result := re_search (flatten content)\<rparr>)"
    using assms(1) t(1) by (subst article_while.simps) (simp add: sample_one_drawn Let_def)
  moreover have "?s1\<lparr>result := re_search (flatten content)\<rparr> = ?s1"
    using t(2) assms(1) by simp
  ultimately show ?thesis by simp
qed

lemma article_while_found:
  assumes "result s = None" and "has_background s (drawn sv (draws s))"
  shows "\<exists>text g. files s (''data/raw/'' @ drawn sv (draws s)) = Some text
     \<and> re_search (flatten text) = Some g
     \<and> article_while sv s =
         Some (None, s\<lparr>draws := draws s + 1, art := Some (drawn sv (draws s)),
          trace := trace s @ [OpenFile (''data/raw/'' @ drawn sv (draws s))],
          result := Some g\<rparr>)"
proof -
  from has_backgroundD[OF assms(2)] obtain content g where
    t: "files s (''data/raw/'' @ drawn sv (draws s)) = Some content" "re_search (flatten content) = Some g"
    by blast
  let ?s2 = "s\<lparr>draws := draws s + 1, art := Some (drawn sv (draws s)),
          trace := trace s @ [OpenFile (''data/raw/'' @ drawn sv (draws s))],
          result := Some g\<rparr>"
  have "article_while sv ?s2 = Some (None, ?s2)"
    by (subst article_while.simps) simp
  then have "article_while sv s = Some (None, ?s2)"
    using assms(1) t by (subst article_while.simps) (simp add: sample_one_drawn Let_def)
  then show ?thesis using t by blast
qed

lemma article_while_opens:
  assumes "result s = None"
    and "\<forall>j<n. lacks_background s (drawn sv (draws s + j))"
    and "has_background s (drawn sv (draws s + n))"
  shows "\<exists>s'. article_while sv s = Some (None, s') \<and> draws s' = draws s + n + 1
     \<and> art s' = Some (drawn sv (draws s + n)) \<and> result s' \<noteq> None
     \<and> trace s' = trace s @ map (\<lambda>j. OpenFile (''data/raw/'' @ drawn sv (draws s + j))) [0..<n + 1]"
  using assms
proof (induction n arbitrary: s)
  case 0
  have "has_background s (drawn sv (draws s))" using 0(3) by simp
  from article_while_found[OF 0(1) this] obtain content g where
    "article_while sv s =
         Some (None, s\<lparr>draws := draws s + 1, art := Some (drawn sv (draws s)),
          trace := trace s @ [OpenFile (''data/raw/'' @ drawn sv (draws s))],
          result := Some g\<rparr>)" by blast
  then show ?case by simp
next
  case (Suc n)
  let ?s1 = "s\<lparr>draws := draws s + 1, art := Some (drawn sv (draws s)),
          trace := trace s @ [OpenFile (''data/raw/'' @ drawn sv (draws s))]\<rparr>"
  have l0: "lacks_background s (drawn sv (draws s))" using Suc.prems(2) by force
  have step: "article_while sv s = article_while sv ?s1"
    using Suc.prems(1) l0 by (rule article_while_retry)
  have lb: "\<And>a. lacks_background ?s1 a = lacks_background s a"
    and hb: "\<And>a. has_background ?s1 a = has_background s a"
    by (simp_all add: lacks_background_def has_background_def)
  have d1: "draws ?s1 = Suc (draws s)" by simp
  have "\<exists>s'. article_while sv ?s1 = Some (None, s') \<and> draws s' = draws ?s1 + n + 1
     \<and> art s' = Some (drawn sv (draws ?s1 + n)) \<and> result s' \<noteq> None
     \<and> trace s' = trace ?s1 @ map (\<lambda>j. OpenFile (''data/raw/'' @ drawn sv (draws ?s1 + j))) [0..<n + 1]"
  proof (rule Suc.IH)
    show "result ?s1 = None" using Suc.prems(1) by simp
    show "\<forall>j<n. lacks_background ?s1 (drawn sv (draws ?s1 + j))"
    proof (intro allI impI)
      fix j assume "j < n"
      then have "Suc j < Suc n" by simp
      then have "lacks_background s (drawn sv (draws s + Suc j))" using Suc.prems(2) by blast
      then show "lacks_background ?s1 (drawn sv (draws ?s1 + j))" unfolding lb d1 by simp
    qed
    show "has_background ?s1 (drawn sv (draws ?s1 + n))"
      using Suc.prems(3) unfolding hb d1 by simp
  qed
  then obtain s' where s': "article_while sv ?s1 = Some (None, s')" "draws s' = draws s + Suc n + 1"
    "art s' = Some (drawn sv (draws s + Suc n))" "result s' \<noteq> None"
    "trace s' = trace s @ OpenFile (''data/raw/'' @ drawn sv (draws s))
        # map (\<lambda>j. OpenFile (''data/raw/'' @ drawn sv (draws s + 1 + j))) [0..<n + 1]"
    by auto
  have "map (\<lambda>j. OpenFile (''data/raw/'' @ drawn sv (draws s + j))) [0..<Suc n + 1]
      = OpenFile (''data/raw/'' @ drawn sv (draws s))
        # map (\<lambda>j. OpenFile (''data/raw/'' @ drawn sv (draws s + 1 + j))) [0..<n + 1]"
    by (subst upt_conv_Cons) (simp_all add: map_Suc_upt[symmetric] del: upt_Suc)
  then show ?case using step s' by (intro exI[of _ s']) simp
qed

text \<open>A loop whose every draw gives an article without a match has no result.\<close>

lemma files_lacks_background:
  "files s' = files s \<Longrightarrow> lacks_background s' a = lacks_background s a"
  by (simp add: lacks_background_def)

lemma files_has_background:
  "files s' = files s \<Longrightarrow> has_background s' a = has_background s a"
  by (simp add: has_background_def)

lemma article_while_diverges:
  assumes "article_while sv s = Some y"
  shows "\<not> (result s = None \<and> (\<forall>k. lacks_background s (drawn sv k)))"
proof (rule article_while.raw_induct
    [where P = "\<lambda>sv s y. \<not> (result s = None \<and> (\<forall>k. lacks_background s (drawn sv k)))"])
  show "article_while sv s = Some y" by fact
next
  fix f :: "services \<Rightarrow> notebook \<Rightarrow> (py_error option \<times> notebook) option"
    and sv s y
  assume ih: "\<And>sv s y. f sv s = Some y \<Longrightarrow>
      \<not> (result s = None \<and> (\<forall>k. lacks_background s (drawn sv k)))"
    and body: "(if result s = None then
        (case sample_one sv (draws s) article_names of
           Inl e \<Rightarrow> Some (Some e, s)
         | Inr a \<Rightarrow>
             (let s1 = s\<lparr>draws := draws s + 1, art := Some a,
                         trace := trace s @ [OpenFile (''data/raw/'' @ a)]\<rparr>
              in case files s1 (''data/raw/'' @ a) of
                   None \<Rightarrow> Some (Some FileNotFoundError, s1)
                 | Some text \<Rightarrow> f sv (s1\<lparr>result := re_search (flatten text)\<rparr>)))
      else Some (None, s)) = Some y"
  show "\<not> (result s = None \<and> (\<forall>k. lacks_background s (drawn sv k)))"
  proof
    assume a: "result s = None \<and> (\<forall>k. lacks_background s (drawn sv k))"
    then obtain content where
      t: "files s (''data/raw/'' @ drawn sv (draws s)) = Some content"
         "re_search (flatten content) = None"
      using lacks_backgroundD by blast
    let ?s2 = "s\<lparr>draws := draws s + 1, art := Some (drawn sv (draws s)),
          trace := trace s @ [OpenFile (''data/raw/'' @ drawn sv (draws s))], result := None\<rparr>"
    have "f sv ?s2 = Some y"
      using body a t by (simp add: sample_one_drawn Let_def)
    from ih[OF this] have "\<not> (result ?s2 = None \<and> (\<forall>k. lacks_background ?s2 (drawn sv k)))" .
    moreover have "\<And>a. lacks_background ?s2 a = lacks_background s a"
      by (rule files_lacks_background) simp
    ultimately show False using a by simp
  qed
qed

text \<open>What a normal exit of the loop tells.\<close>

lemma article_while_exit:
  assumes "article_while sv s = Some y"
  shows "files (snd y) = files s \<and> (result s \<noteq> None \<longrightarrow> y = (None, s))
     \<and> (fst y = None \<longrightarrow> result (snd y) \<noteq> None)
     \<and> (result s = None \<and> fst y = None \<longrightarrow>
          (\<exists>a \<in> set article_names. \<exists>content. art (snd y) = Some a
              \<and> files s (''data/raw/'' @ a) = Some content
              \<and> result (snd y) = re_search (flatten content) \<and> has_background s a))"
proof (rule article_while.raw_induct
    [where P = "\<lambda>sv s y. files (snd y) = files s \<and> (result s \<noteq> None \<longrightarrow> y = (None, s))
     \<and> (fst y = None \<longrightarrow> result (snd y) \<noteq> None)
     \<and> (result s = None \<and> fst y = None \<longrightarrow>
          (\<exists>a \<in> set article_names. \<exists>content. art (snd y) = Some a
              \<and> files s (''data/raw/'' @ a) = Some content
              \<and> result (snd y) = re_search (flatten content) \<and> has_background s a))"])
  show "article_while sv s = Some y" by fact
next
  fix f :: "services \<Rightarrow> notebook \<Rightarrow> (py_error option \<times> notebook) option"
    and sv s y
  assume ih: "\<And>sv s y. f sv s = Some y \<Longrightarrow>
      files (snd y) = files s \<and> (result s \<noteq> None \<longrightarrow> y = (None, s))
     \<and> (fst y = None \<longrightarrow> result (snd y) \<noteq> None)
     \<and> (result s = None \<and> fst y = None \<longrightarrow>
          (\<exists>a \<in> set article_names. \<exists>content. art (snd y) = Some a
              \<and> files s (''data/raw/'' @ a) = Some content
              \<and> result (snd y) = re_search (flatten content) \<and> has_background s a))"
    and body: "(if result s = None then
        (case sample_one sv (draws s) article_names of
           Inl e \<Rightarrow> Some (Some e, s)
         | Inr a \<Rightarrow>
             (let s1 = s\<lparr>draws := draws s + 1, art := Some a,
                         trace := trace s @ [OpenFile (''data/raw/'' @ a)]\<rparr>
              in case files s1 (''data/raw/'' @ a) of
                   None \<Rightarrow> Some (Some FileNotFoundError, s1)
                 | Some text \<Rightarrow> f sv (s1\<lparr>result := re_search (flatten text)\<rparr>)))
      else Some (None, s)) = Some y"
  show "files (snd y) = files s \<and> (result s \<noteq> None \<longrightarrow> y = (None, s))
     \<and> (fst y = None \<longrightarrow> result (snd y) \<noteq> None)
     \<and> (result s = None \<and> fst y = None \<longrightarrow>
          (\<exists>a \<in> set article_names. \<exists>content. art (snd y) = Some a
              \<and> files s (''data/raw/'' @ a) = Some content
              \<and> result (snd y) = re_search (flatten content) \<and> has_background s a))"
  proof (cases "result s = None")
    case False
    then show ?thesis using body by auto
  next
    case True
    let ?a = "drawn sv (draws s)"
    let ?s1 = "s\<lparr>draws := draws s + 1, art := Some ?a,
          trace := trace s @ [OpenFile (''data/raw/'' @ ?a)]\<rparr>"
    show ?thesis
    proof (cases "files s (''data/raw/'' @ ?a)")
      case None
      then have "y = (Some FileNotFoundError, ?s1)"
        using body True by (simp add: sample_one_drawn Let_def)
      then show ?thesis using True by simp
    next
      case (Some content)
      let ?s2 = "?s1\<lparr>result := re_search (flatten content)\<rparr>"
      have rec: "f sv ?s2 = Some y"
        using body True Some by (simp add: sample_one_drawn Let_def)
      note ih = ih[OF rec]
      show ?thesis
      proof (cases "re_search (flatten content)")
        case None
        have hb: "\<And>a. has_background ?s2 a = has_background s a"
          by (rule files_has_background) simp
        show ?thesis using ih None True by (simp add: has_background_def)
      next
        case (Some g)
        then have y: "y = (None, ?s2)" using ih by simp
        have "sublist (str ''Background '') (flatten content)"
          using Some re_search_None[of "flatten content"] by simp
        then have "has_background s ?a"
          using \<open>files s (''data/raw/'' @ ?a) = Some content\<close>
          by (simp add: has_background_def)
        then show ?thesis
          using y True Some drawn_in_names[of sv "draws s"]
            \<open>files s (''data/raw/'' @ ?a) = Some content\<close>
          by simp
      qed
    qed
  qed
qed

text \<open>
  C8. For every article text, the string that the search extracts as the summarization
  input has at most 1000 characters and contains neither a newline nor a tab (both were
  replaced by spaces before the search): it is the first 1000 characters, or all if there
  are fewer, that follow the first occurrence of \<open>"Background "\<close> in the flattened text.
  This string is what a normal run of the cell assigns to \<open>inputs\<close>, for the text of the
  article it ends with.
\<close>

theorem inputs_at_most_1000:
  "(re_search (flatten text) = Some g \<longrightarrow>
      length g \<le> 1000 \<and> 10 \<notin> set g \<and> 9 \<notin> set g
      \<and> (\<exists>pre post. flatten text = pre @ str ''Background '' @ post
            \<and> g = take 1000 post
            \<and> (\<forall>pre' post'. flatten text = pre' @ str ''Background '' @ post'
                  \<longrightarrow> length pre \<le> length pre')))
   \<and> (article_cell sv s = Some (None, s') \<longrightarrow>
      (\<exists>a \<in> set article_names. \<exists>content g'. art s' = Some a
          \<and> files s (''data/raw/'' @ a) = Some content
          \<and> re_search (flatten content) = Some g' \<and> inputs s' = Some g'
          \<and> length g' \<le> 1000 \<and> 10 \<notin> set g' \<and> 9 \<notin> set g'))"
proof (rule conjI)
  show "re_search (flatten text) = Some g \<longrightarrow>
      length g \<le> 1000 \<and> 10 \<notin> set g \<and> 9 \<notin> set g
      \<and> (\<exists>pre post. flatten text = pre @ str ''Background '' @ post
            \<and> g = take 1000 post
            \<and> (\<forall>pre' post'. flatten text = pre' @ str ''Background '' @ post'
                  \<longrightarrow> length pre \<le> length pre'))"
    using search_group[of "text" g] by blast
next
  show "article_cell sv s = Some (None, s') \<longrightarrow>
      (\<exists>a \<in> set article_names. \<exists>content g'. art s' = Some a
          \<and> files s (''data/raw/'' @ a) = Some content
          \<and> re_search (flatten content) = Some g' \<and> inputs s' = Some g'
          \<and> length g' \<le> 1000 \<and> 10 \<notin> set g' \<and> 9 \<notin> set g')"
  proof
    let ?s0 = "s\<lparr>result := None\<rparr>"
    assume run: "article_cell sv s = Some (None, s')"
    then obtain t where t: "article_while sv ?s0 = Some (None, t)"
      by (auto simp: article_cell_def split: option.splits prod.splits)
    from article_while_exit[OF t] obtain a content where
      a: "a \<in> set article_names" "art t = Some a" "files s (''data/raw/'' @ a) = Some content"
         "result t = re_search (flatten content)" "result t \<noteq> None"
      by auto
    then obtain g' where g': "re_search (flatten content) = Some g'" "result t = Some g'"
      by auto
    then have s': "s' = t\<lparr>inputs := Some g'\<rparr>"
      using run t by (simp add: article_cell_def)
    have "length g' \<le> 1000 \<and> 10 \<notin> set g' \<and> 9 \<notin> set g'"
      using search_group[OF g'(1)] by blast
    then show "\<exists>a \<in> set article_names. \<exists>content g'. art s' = Some a
          \<and> files s (''data/raw/'' @ a) = Some content
          \<and> re_search (flatten content) = Some g' \<and> inputs s' = Some g'
          \<and> length g' \<le> 1000 \<and> 10 \<notin> set g' \<and> 9 \<notin> set g'"
      using a(1,2,3) g'(1) s' by auto
  qed
qed

theorem inputs_at_most_1000_witness:
  "re_search (flatten sample_text) = Some (str ''The gene x '')
   \<and> length (str ''The gene x '') \<le> 1000
   \<and> 10 \<notin> set (str ''The gene x '') \<and> 9 \<notin> set (str ''The gene x '')
   \<and> inputs (snd (the (article_cell sample_services sample_kernel)))
       = Some (str ''The gene x '')"
proof -
  let ?r = "article_cell sample_services sample_kernel"
  have h: "re_search (flatten sample_text) = Some (str ''The gene x '')"
    by code_simp
  have a: "length (str ''The gene x '') \<le> 1000
      \<and> 10 \<notin> set (str ''The gene x '') \<and> 9 \<notin> set (str ''The gene x '')"
    using inputs_at_most_1000 [of sample_text "str ''The gene x ''"] h by blast
  have "?r \<noteq> None" by code_simp
  moreover have "fst (the ?r) = None" by code_simp
  ultimately have run: "?r = Some (None, snd (the ?r))" by (auto simp: prod_eq_iff)
  have art: "art (snd (the ?r)) = Some ''PMC1054888.txt''" by code_simp
  have f: "files sample_kernel (''data/raw/'' @ ''PMC1054888.txt'') = Some sample_text"
    by (simp add: sample_kernel_def)
  from inputs_at_most_1000 [of _ _ sample_services sample_kernel "snd (the ?r)"] run
  obtain a content g' where "art (snd (the ?r)) = Some a"
    "files sample_kernel (''data/raw/'' @ a) = Some content"
    "re_search (flatten content) = Some g'" "inputs (snd (the ?r)) = Some g'"
    by blast
  then have "inputs (snd (the ?r)) = Some (str ''The gene x '')"
    using art f h by auto
  then show ?thesis using h a by blast
qed

text \<open>
  C9. The article-selection cell ends normally only with a drawn article whose flattened
  text contains \<open>"Background "\<close>. If every article of \<open>article_names\<close> has a text
  without it, the cell has no result for any sequence of draws: the loop never ends. If
  every article has a text with it, the cell ends for every sequence of draws; and this
  is the only guarantee: as soon as one article has a text without it, there is a sequence
  of draws (the one that always gives this article) for which the loop never ends.
\<close>

theorem article_loop_termination:
  "(article_cell sv s = Some (None, s') \<longrightarrow>
      (\<exists>a \<in> set article_names. art s' = Some a \<and> has_background s a))
   \<and> ((\<forall>a \<in> set article_names. lacks_background s a) \<longrightarrow> article_cell sv s = None)
   \<and> ((\<forall>a \<in> set article_names. has_background s a) \<longrightarrow>
        (\<exists>t. article_cell sv s = Some (None, t)))
   \<and> (\<forall>i < length article_names. lacks_background s (article_names ! i) \<longrightarrow>
        article_cell (sv\<lparr>choice := \<lambda>k. i\<rparr>) s = None)"
proof (intro conjI impI allI)
  let ?s0 = "s\<lparr>result := None\<rparr>"
  assume run: "article_cell sv s = Some (None, s')"
  then obtain t where t: "article_while sv ?s0 = Some (None, t)"
    by (auto simp: article_cell_def split: option.splits prod.splits)
  then have s': "art s' = art t"
    using run by (auto simp: article_cell_def split: option.splits)
  from article_while_exit[OF t] obtain a where "a \<in> set article_names" "art t = Some a"
    "has_background ?s0 a" by auto
  moreover have "has_background ?s0 a = has_background s a"
    by (rule files_has_background) simp
  ultimately show "\<exists>a \<in> set article_names. art s' = Some a \<and> has_background s a"
    using s' by auto
next
  let ?s0 = "s\<lparr>result := None\<rparr>"
  assume all: "\<forall>a \<in> set article_names. lacks_background s a"
  have "\<And>a. lacks_background ?s0 a = lacks_background s a"
    by (rule files_lacks_background) simp
  then have "result ?s0 = None \<and> (\<forall>k. lacks_background ?s0 (drawn sv k))"
    using all drawn_in_names by simp
  then have "article_while sv ?s0 = None"
    using article_while_diverges[of sv ?s0] by (cases "article_while sv ?s0") auto
  then show "article_cell sv s = None" by (simp add: article_cell_def)
next
  let ?s0 = "s\<lparr>result := None\<rparr>"
  assume all: "\<forall>a \<in> set article_names. has_background s a"
  have "\<And>a. has_background ?s0 a = has_background s a"
    by (rule files_has_background) simp
  then have "has_background ?s0 (drawn sv (draws ?s0))"
    using all drawn_in_names by simp
  from article_while_found[OF _ this] obtain g where
    "article_while sv ?s0 =
         Some (None, ?s0\<lparr>draws := draws ?s0 + 1, art := Some (drawn sv (draws ?s0)),
          trace := trace ?s0 @ [OpenFile (''data/raw/'' @ drawn sv (draws ?s0))],
          result := Some g\<rparr>)" by auto
  then show "\<exists>t. article_cell sv s = Some (None, t)" by (simp add: article_cell_def)
next
  fix i
  let ?s0 = "s\<lparr>result := None\<rparr>"
  let ?sv = "sv\<lparr>choice := \<lambda>k. i\<rparr>"
  assume i: "i < length article_names" and l: "lacks_background s (article_names ! i)"
  have "\<And>k. drawn ?sv k = article_names ! i" using i by (simp add: drawn_def)
  moreover have "\<And>a. lacks_background ?s0 a = lacks_background s a"
    by (rule files_lacks_background) simp
  ultimately have "result ?s0 = None \<and> (\<forall>k. lacks_background ?s0 (drawn ?sv k))"
    using l by simp
  then have "article_while ?sv ?s0 = None"
    using article_while_diverges[of ?sv ?s0] by (cases "article_while ?sv ?s0") auto
  then show "article_cell ?sv s = None" by (simp add: article_cell_def)
qed

theorem article_loop_termination_witness:
  "art (snd (the (article_cell sample_services sample_kernel))) = Some ''PMC1054888.txt''
   \<and> has_background sample_kernel ''PMC1054888.txt''
   \<and> article_cell (sample_services\<lparr>choice := \<lambda>k. 0\<rparr>) sample_kernel = None
   \<and> article_cell sample_services (fresh\<lparr>files := \<lambda>p. Some (str ''Methods only'')\<rparr>) = None
   \<and> (\<exists>t. article_cell sample_services (fresh\<lparr>files := \<lambda>p. Some sample_text\<rparr>)
          = Some (None, t))"
proof -
  let ?r = "article_cell sample_services sample_kernel"
  have "?r \<noteq> None" by code_simp
  moreover have "fst (the ?r) = None" by code_simp
  ultimately have run: "?r = Some (None, snd (the ?r))" by (auto simp: prod_eq_iff)
  have a: "art (snd (the ?r)) = Some ''PMC1054888.txt''" by code_simp
  have "\<exists>a \<in> set article_names. art (snd (the ?r)) = Some a \<and> has_background sample_kernel a"
    using article_loop_termination [of sample_services sample_kernel "snd (the ?r)"] run
    by blast
  then have b: "has_background sample_kernel ''PMC1054888.txt''" using a by auto
  have "0 < length article_names" by (simp add: length_article_names)
  moreover have "lacks_background sample_kernel (article_names ! 0)" by code_simp
  ultimately have c: "article_cell (sample_services\<lparr>choice := \<lambda>k. 0\<rparr>) sample_kernel = None"
    using article_loop_termination [of sample_services sample_kernel] by blast
  have "\<not> sublist (str ''Background '') (flatten (str ''Methods only''))" by code_simp
  then have "\<forall>a \<in> set article_names.
      lacks_background (fresh\<lparr>files := \<lambda>p. Some (str ''Methods only'')\<rparr>) a"
    by (simp add: lacks_background_def)
  then have d: "article_cell sample_services (fresh\<lparr>files := \<lambda>p. Some (str ''Methods only'')\<rparr>) = None"
    using article_loop_termination
      [of sample_services "fresh\<lparr>files := \<lambda>p. Some (str ''Methods only'')\<rparr>"] by blast
  have "sublist (str ''Background '') (flatten sample_text)" by code_simp
  then have "\<forall>a \<in> set article_names.
      has_background (fresh\<lparr>files := \<lambda>p. Some sample_text\<rparr>) a"
    by (simp add: has_background_def)
  then have e: "\<exists>t. article_cell sample_services (fresh\<lparr>files := \<lambda>p. Some sample_text\<rparr>)
          = Some (None, t)"
    using article_loop_termination
      [of sample_services "fresh\<lparr>files := \<lambda>p. Some sample_text\<rparr>"] by blast
  show ?thesis using a b c d e by blast
qed

text \<open>
  C5 does not hold as stated: the article-selection step does retry. On the sample kernel,
  whose first and second drawn articles have no background section, the cell opens the
  files of three articles, one after the other, and ends normally with the third.
\<close>

theorem article_selection_retries:
  "article_cell sample_services sample_kernel \<noteq> None
   \<and> fst (the (article_cell sample_services sample_kernel)) = None
   \<and> events_since sample_kernel (snd (the (article_cell sample_services sample_kernel)))
       = [OpenFile ''data/raw/PMC1043862.txt'', OpenFile ''data/raw/PMC1054881.txt'',
          OpenFile ''data/raw/PMC1054888.txt'']"
  by code_simp

lemma events_since_append: "trace t = trace s @ L \<Longrightarrow> events_since s t = L"
  by (simp add: events_since_def)

text \<open>
  C5, as the code has it. Besides the polling loop, the article-selection step retries: it
  draws and opens another article each time the drawn text has no match, any number
  \<open>n\<close> of times, and stops at the first drawn article with a match. Nothing else is
  retried or recovered: a missing article file, an exception of the status call, of the
  download, of the asynchronous prediction or of the endpoint deletion ends its cell at
  once, with no further attempt.
\<close>

theorem retries_only_in_the_two_loops:
  "((\<forall>j<n. lacks_background s (drawn sv (draws s + j)))
      \<and> has_background s (drawn sv (draws s + n)) \<longrightarrow>
      (\<exists>t. article_cell sv s = Some (None, t)
         \<and> events_since s t
             = map (\<lambda>j. OpenFile (''data/raw/'' @ drawn sv (draws s + j))) [0..<n + 1]))
   \<and> (files s (''data/raw/'' @ drawn sv (draws s)) = None \<longrightarrow>
      (\<exists>t. article_cell sv s = Some (Some FileNotFoundError, t)
         \<and> events_since s t = [OpenFile (''data/raw/'' @ drawn sv (draws s))]))
   \<and> (describe_topics_detection_job sv 0 = Inl e \<longrightarrow>
      (\<exists>t. poll_cell sv s = (Some e, t) \<and> events_since s t = [DescribeJob]))
   \<and> (job_status s = Inr (Str ''COMPLETED'') \<and> output_s3_uri s = Inr uri
        \<and> download_data sv uri = Some e \<longrightarrow>
      download_cell sv s = (Some e, s\<lparr>trace := trace s @ [DownloadData uri]\<rparr>))
   \<and> (inputs s = Some d \<and> predict_async sv d = Some e \<longrightarrow>
      predict_cell sv s = (Some e, s\<lparr>trace := trace s @ [PredictAsync]\<rparr>))
   \<and> (\<not> endpoint s \<longrightarrow>
      cleanup_cell s = (Some ClientError, s\<lparr>trace := trace s @ [DeleteEndpoint]\<rparr>))"
proof (intro conjI impI)
  let ?s0 = "s\<lparr>result := None\<rparr>"
  assume a: "(\<forall>j<n. lacks_background s (drawn sv (draws s + j)))
      \<and> has_background s (drawn sv (draws s + n))"
  have lb: "\<And>a. lacks_background ?s0 a = lacks_background s a"
    by (rule files_lacks_background) simp
  have hb: "\<And>a. has_background ?s0 a = has_background s a"
    by (rule files_has_background) simp
  have "\<exists>s'. article_while sv ?s0 = Some (None, s') \<and> draws s' = draws ?s0 + n + 1
     \<and> art s' = Some (drawn sv (draws ?s0 + n)) \<and> result s' \<noteq> None
     \<and> trace s' = trace ?s0 @ map (\<lambda>j. OpenFile (''data/raw/'' @ drawn sv (draws ?s0 + j))) [0..<n + 1]"
    using a by (intro article_while_opens) (simp_all add: lb hb)
  then obtain s' g where s': "article_while sv ?s0 = Some (None, s')" "result s' = Some g"
     "trace s' = trace s @ map (\<lambda>j. OpenFile (''data/raw/'' @ drawn sv (draws s + j))) [0..<n + 1]"
    by auto
  then have "article_cell sv s = Some (None, s'\<lparr>inputs := Some g\<rparr>)"
    by (simp add: article_cell_def)
  moreover have "events_since s (s'\<lparr>inputs := Some g\<rparr>)
      = map (\<lambda>j. OpenFile (''data/raw/'' @ drawn sv (draws s + j))) [0..<n + 1]"
    by (rule events_since_append) (simp add: s'(3))
  ultimately show "\<exists>t. article_cell sv s = Some (None, t)
         \<and> events_since s t
             = map (\<lambda>j. OpenFile (''data/raw/'' @ drawn sv (draws s + j))) [0..<n + 1]"
    by blast
next
  let ?s0 = "s\<lparr>result := None\<rparr>"
  let ?t = "?s0\<lparr>draws := draws s + 1, art := Some (drawn sv (draws s)),
          trace := trace s @ [OpenFile (''data/raw/'' @ drawn sv (draws s))]\<rparr>"
  assume "files s (''data/raw/'' @ drawn sv (draws s)) = None"
  then have "article_while sv ?s0 = Some (Some FileNotFoundError, ?t)"
    by (subst article_while.simps) (simp add: sample_one_drawn Let_def)
  then have "article_cell sv s = Some (Some FileNotFoundError, ?t)"
    by (simp add: article_cell_def)
  moreover have "events_since s ?t = [OpenFile (''data/raw/'' @ drawn sv (draws s))]"
    by (rule events_since_append) simp
  ultimately show "\<exists>t. article_cell sv s = Some (Some FileNotFoundError, t)
         \<and> events_since s t = [OpenFile (''data/raw/'' @ drawn sv (draws s))]"
    by blast
next
  let ?s0 = "s\<lparr>number_of_comprehend_status_checks := 0\<rparr>"
  let ?t = "?s0\<lparr>trace := trace s @ [DescribeJob]\<rparr>"
  assume "describe_topics_detection_job sv 0 = Inl e"
  then have "poll_body sv ?s0 = (Raise e, ?t)" by (simp add: poll_body_def)
  then have "poll_while sv ?s0 = (Some e, ?t)"
    by (subst poll_while.simps) (simp add: maximum_comprehend_status_checks_def)
  then have "poll_cell sv s = (Some e, ?t)" by (simp add: poll_cell_def)
  moreover have "events_since s ?t = [DescribeJob]"
    by (rule events_since_append) simp
  ultimately show "\<exists>t. poll_cell sv s = (Some e, t) \<and> events_since s t = [DescribeJob]"
    by blast
next
  assume "job_status s = Inr (Str ''COMPLETED'') \<and> output_s3_uri s = Inr uri
        \<and> download_data sv uri = Some e"
  then show "download_cell sv s = (Some e, s\<lparr>trace := trace s @ [DownloadData uri]\<rparr>)"
    by (simp add: download_cell_def)
next
  assume "inputs s = Some d \<and> predict_async sv d = Some e"
  then show "predict_cell sv s = (Some e, s\<lparr>trace := trace s @ [PredictAsync]\<rparr>)"
    by (simp add: predict_cell_def)
next
  assume "\<not> endpoint s"
  then show "cleanup_cell s = (Some ClientError, s\<lparr>trace := trace s @ [DeleteEndpoint]\<rparr>)"
    by (simp add: cleanup_cell_def)
qed

theorem retries_only_in_the_two_loops_witness:
  "(\<exists>t. article_cell sample_services sample_kernel = Some (None, t)
        \<and> events_since sample_kernel t
            = [OpenFile ''data/raw/PMC1043862.txt'', OpenFile ''data/raw/PMC1054881.txt'',
               OpenFile ''data/raw/PMC1054888.txt''])
   \<and> (\<exists>t. article_cell sample_services fresh = Some (Some FileNotFoundError, t)
        \<and> events_since fresh t = [OpenFile ''data/raw/PMC1043862.txt''])
   \<and> (\<exists>t. poll_cell broken_services fresh = (Some ClientError, t)
        \<and> events_since fresh t = [DescribeJob])
   \<and> fst (download_cell broken_services (snd (poll_cell sample_services fresh)))
        = Some ClientError
   \<and> fst (predict_cell broken_services (fresh\<lparr>inputs := Some (str ''x'')\<rparr>)) = Some ClientError
   \<and> fst (cleanup_cell fresh) = Some ClientError"
proof -
  have l0: "lacks_background sample_kernel (drawn sample_services (draws sample_kernel + 0))"
    by code_simp
  have l1: "lacks_background sample_kernel (drawn sample_services (draws sample_kernel + Suc 0))"
    by code_simp
  have "\<forall>j<2. lacks_background sample_kernel (drawn sample_services (draws sample_kernel + j))"
    using l0 l1 by (auto simp: less_2_cases_iff)
  moreover have "has_background sample_kernel (drawn sample_services (draws sample_kernel + 2))"
    by code_simp
  moreover have "map (\<lambda>j. OpenFile (''data/raw/'' @ drawn sample_services (draws sample_kernel + j)))
          [0..<2 + 1]
      = [OpenFile ''data/raw/PMC1043862.txt'', OpenFile ''data/raw/PMC1054881.txt'',
         OpenFile ''data/raw/PMC1054888.txt'']"
    by code_simp
  ultimately have a: "\<exists>t. article_cell sample_services sample_kernel = Some (None, t)
        \<and> events_since sample_kernel t
            = [OpenFile ''data/raw/PMC1043862.txt'', OpenFile ''data/raw/PMC1054881.txt'',
               OpenFile ''data/raw/PMC1054888.txt'']"
    using retries_only_in_the_two_loops [of 2 sample_kernel sample_services] by simp
  have "files fresh (''data/raw/'' @ drawn sample_services (draws fresh)) = None"
    by (simp add: fresh_def)
  moreover have "''data/raw/'' @ drawn sample_services (draws fresh) = ''data/raw/PMC1043862.txt''"
    by code_simp
  ultimately have b: "\<exists>t. article_cell sample_services fresh = Some (Some FileNotFoundError, t)
        \<and> events_since fresh t = [OpenFile ''data/raw/PMC1043862.txt'']"
    using retries_only_in_the_two_loops [of 0 fresh sample_services] by simp
  have "describe_topics_detection_job broken_services 0 = Inl ClientError"
    by (simp add: broken_services_def)
  then have c: "\<exists>t. poll_cell broken_services fresh = (Some ClientError, t)
        \<and> events_since fresh t = [DescribeJob]"
    using retries_only_in_the_two_loops [of 0 fresh broken_services ClientError] by blast
  let ?s = "snd (poll_cell sample_services fresh)"
  have "job_status ?s = Inr (Str ''COMPLETED'')" by code_simp
  moreover have "output_s3_uri ?s = Inr ''s3://b/sci-docs/data/output/o.tar.gz''" by code_simp
  moreover have "download_data broken_services ''s3://b/sci-docs/data/output/o.tar.gz''
      = Some ClientError"
    by (simp add: broken_services_def)
  ultimately have d: "fst (download_cell broken_services ?s) = Some ClientError"
    using retries_only_in_the_two_loops
      [of 0 ?s broken_services ClientError "''s3://b/sci-docs/data/output/o.tar.gz''"]
    by simp
  have "inputs (fresh\<lparr>inputs := Some (str ''x'')\<rparr>) = Some (str ''x'')" by simp
  moreover have "predict_async broken_services (str ''x'') = Some ClientError"
    by (simp add: broken_services_def)
  ultimately have e: "fst (predict_cell broken_services (fresh\<lparr>inputs := Some (str ''x'')\<rparr>))
      = Some ClientError"
    using retries_only_in_the_two_loops
      [of 0 "fresh\<lparr>inputs := Some (str ''x'')\<rparr>" broken_services ClientError _ "str ''x''"]
    by simp
  have "\<not> endpoint fresh" by (simp add: fresh_def)
  then have f: "fst (cleanup_cell fresh) = Some ClientError"
    using retries_only_in_the_two_loops [of 0 fresh] by simp
  show ?thesis using a b c d e f by blast
qed

subsection \<open>The asynchronous wait and the clean-up\<close>

lemma prefix_rounds:
  "k < n \<Longrightarrow> prefix (concat (replicate k [a, b]) @ [a]) (concat (replicate n [a, b]))"
proof (induction k arbitrary: n)
  case 0
  then obtain n' where "n = Suc n'" by (cases n) auto
  then show ?case by simp
next
  case (Suc k)
  then obtain n' where n: "n = Suc n'" "k < n'" by (cases n) auto
  show ?case using Suc.IH[OF n(2)] n(1) by simp
qed

lemma count_check_rounds:
  "count_list (concat (replicate k [CheckOutput, Sleep d])) CheckOutput = k"
  by (induction k) auto

lemma slept_check_rounds:
  "slept (concat (replicate k [CheckOutput, Sleep d])) = int k * d"
  by (induction k) (auto simp: algebra_simps)

lemma slept_append: "slept (xs @ ys) = slept xs + slept ys"
  by (induction xs rule: slept.induct) auto

lemma get_result_trace:
  "get_result sv w n s = (r, s') \<Longrightarrow>
     \<exists>k. trace s' = trace s @ concat (replicate k [CheckOutput, Sleep (delay w)]) @ [CheckOutput]
        \<and> (k = 0 \<or> int k + n + 1 \<le> max_attempts w)
        \<and> (r = None \<and> summary s' = Some (inference_output sv) \<or> r = Some PollingTimeoutError)"
proof (induction sv w n s arbitrary: r s' rule: get_result.induct)
  case (1 sv w n s)
  let ?s1 = "s\<lparr>trace := trace s @ [CheckOutput]\<rparr>"
  let ?s2 = "?s1\<lparr>trace := trace ?s1 @ [Sleep (delay w)]\<rparr>"
  show ?case
  proof (cases "output_ready sv (nat n)")
    case True
    then have "r = None" "s' = ?s1\<lparr>summary := Some (inference_output sv)\<rparr>"
      using "1.prems" by (simp_all add: get_result.simps[of sv w n s] Let_def)
    then show ?thesis by (intro exI[of _ 0]) simp
  next
    case False
    show ?thesis
    proof (cases "max_attempts w \<le> n + 1")
      case True
      then have "r = Some PollingTimeoutError" "s' = ?s1"
        using "1.prems" False by (simp_all add: get_result.simps[of sv w n s] Let_def)
      then show ?thesis by (intro exI[of _ 0]) simp
    next
      case more: False
      have rec: "get_result sv w (n + 1) ?s2 = (r, s')"
        using "1.prems" False more by (simp add: get_result.simps[of sv w n s] Let_def)
      from "1.IH"[OF refl False more rec] obtain k where
        k: "trace s' = trace ?s2 @ concat (replicate k [CheckOutput, Sleep (delay w)]) @ [CheckOutput]"
           "k = 0 \<or> int k + (n + 1) + 1 \<le> max_attempts w"
           "r = None \<and> summary s' = Some (inference_output sv) \<or> r = Some PollingTimeoutError"
        by blast
      have "trace s' = trace s @ concat (replicate (Suc k) [CheckOutput, Sleep (delay w)]) @ [CheckOutput]"
        using k(1) by simp
      moreover have "int (Suc k) + n + 1 \<le> max_attempts w" using k(2) more by auto
      ultimately show ?thesis using k(3) by (intro exI[of _ "Suc k"]) blast
    qed
  qed
qed

text \<open>
  C6. The result of the asynchronous inference is obtained by a blocking, bounded wait:
  after the one call of \<^verbatim>\<open>predict_async\<close> the cell stays in \<open>get_result\<close> with the
  waiter of 24 attempts and a delay of 15 seconds, whose events are an initial segment of
  24 rounds of one check and one sleep of 15 seconds. So every run of the cell returns,
  after at most 24 checks and at most \<open>24 * 15\<close> seconds of sleep, and a run that
  raises nothing has the result.
\<close>

theorem async_wait_bounded:
  "\<exists>r s' L. predict_cell sv s = (r, s') \<and> trace s' = trace s @ L
      \<and> max_attempts waiter = 24 \<and> delay waiter = 15
      \<and> prefix L (PredictAsync # concat (replicate (nat (max_attempts waiter))
                                           [CheckOutput, Sleep (delay waiter)]))
      \<and> count_list L CheckOutput \<le> 24 \<and> slept L \<le> 24 * 15
      \<and> (r = None \<longrightarrow> summary s' = Some (inference_output sv))"
proof (cases "inputs s")
  case None
  then have "predict_cell sv s = (Some NameError, s)" by (simp add: predict_cell_def)
  then show ?thesis
    by (intro exI[of _ "Some NameError"] exI[of _ s] exI[of _ "[]"]) (simp add: waiter_def)
next
  case (Some d)
  let ?s1 = "s\<lparr>trace := trace s @ [PredictAsync]\<rparr>"
  show ?thesis
  proof (cases "predict_async sv d")
    case (Some e)
    then have "predict_cell sv s = (Some e, ?s1)"
      using \<open>inputs s = Some d\<close> by (simp add: predict_cell_def)
    then show ?thesis
      by (intro exI[of _ "Some e"] exI[of _ ?s1] exI[of _ "[PredictAsync]"]) (simp add: waiter_def)
  next
    case None
    obtain r s' where run: "get_result sv waiter 0 ?s1 = (r, s')" by (cases "get_result sv waiter 0 ?s1")
    then have cell: "predict_cell sv s = (r, s')"
      using \<open>inputs s = Some d\<close> None by (simp add: predict_cell_def)
    from get_result_trace[OF run] obtain k where
      k: "trace s' = trace ?s1 @ concat (replicate k [CheckOutput, Sleep (delay waiter)]) @ [CheckOutput]"
         "k = 0 \<or> int k + 0 + 1 \<le> max_attempts waiter"
         "r = None \<and> summary s' = Some (inference_output sv) \<or> r = Some PollingTimeoutError"
      by blast
    let ?L = "PredictAsync # concat (replicate k [CheckOutput, Sleep 15]) @ [CheckOutput]"
    have k24: "k < 24" using k(2) by (auto simp: waiter_def)
    have t: "trace s' = trace s @ ?L" using k(1) by (simp add: waiter_def)
    have p: "prefix ?L (PredictAsync # concat (replicate 24 [CheckOutput, Sleep 15]))"
      using prefix_rounds[OF k24, of CheckOutput "Sleep 15"] by simp
    have c: "count_list ?L CheckOutput \<le> 24"
      using k24 by (simp add: count_check_rounds)
    have "slept ?L = int k * 15"
      by (simp add: slept_append slept_check_rounds)
    then have sl: "slept ?L \<le> 24 * 15" using k24 by simp
    have o: "r = None \<longrightarrow> summary s' = Some (inference_output sv)" using k(3) by auto
    show ?thesis
      using cell t p c sl o
      by (intro exI[of _ r] exI[of _ s'] exI[of _ ?L]) (simp add: waiter_def)
  qed
qed

theorem async_wait_bounded_witness:
  "fst (predict_cell sample_services (fresh\<lparr>inputs := Some (str ''The gene x '')\<rparr>)) = None
   \<and> trace (snd (predict_cell sample_services (fresh\<lparr>inputs := Some (str ''The gene x '')\<rparr>)))
       = [PredictAsync, CheckOutput, Sleep 15, CheckOutput, Sleep 15, CheckOutput]
   \<and> summary (snd (predict_cell sample_services (fresh\<lparr>inputs := Some (str ''The gene x '')\<rparr>)))
       = Some ''tldr''
   \<and> slept (trace (snd (predict_cell sample_services
          (fresh\<lparr>inputs := Some (str ''The gene x '')\<rparr>)))) \<le> 24 * 15
   \<and> fst (predict_cell (sample_services\<lparr>output_ready := \<lambda>k. False\<rparr>)
          (fresh\<lparr>inputs := Some (str ''The gene x '')\<rparr>)) = Some PollingTimeoutError
   \<and> count_list (trace (snd (predict_cell (sample_services\<lparr>output_ready := \<lambda>k. False\<rparr>)
          (fresh\<lparr>inputs := Some (str ''The gene x '')\<rparr>)))) CheckOutput = 24"
proof -
  let ?s = "fresh\<lparr>inputs := Some (str ''The gene x '')\<rparr>"
  have f: "fst (predict_cell sample_services ?s) = None" by code_simp
  have t: "trace (snd (predict_cell sample_services ?s))
       = [PredictAsync, CheckOutput, Sleep 15, CheckOutput, Sleep 15, CheckOutput]"
    by code_simp
  from async_wait_bounded [of sample_services ?s] obtain r s' L where
    run: "predict_cell sample_services ?s = (r, s')" and l: "trace s' = trace ?s @ L"
    and sl: "slept L \<le> 24 * 15"
    and o: "r = None \<longrightarrow> summary s' = Some (inference_output sample_services)"
    by blast
  have r: "r = None" and s': "s' = snd (predict_cell sample_services ?s)"
    using run f by auto
  have "L = trace (snd (predict_cell sample_services ?s))"
    using l s' by (simp add: fresh_def)
  then have a: "slept (trace (snd (predict_cell sample_services ?s))) \<le> 24 * 15"
    using sl by simp
  have b: "summary (snd (predict_cell sample_services ?s)) = Some ''tldr''"
    using o r s' by (simp add: sample_services_def)
  have c: "fst (predict_cell (sample_services\<lparr>output_ready := \<lambda>k. False\<rparr>) ?s)
      = Some PollingTimeoutError"
    by code_simp
  have d: "count_list (trace (snd (predict_cell (sample_services\<lparr>output_ready := \<lambda>k. False\<rparr>) ?s)))
      CheckOutput = 24"
    by code_simp
  show ?thesis using f t a b c d by simp
qed

text \<open>
  C7. The clean-up cell leaves every object of the session bucket whose key does not start
  with \<open>"sci-docs"\<close> as it was, in every run. When the endpoint exists, the cell raises
  nothing, the endpoint is deleted, and the bucket afterwards holds exactly the objects it
  held whose key does not start with \<open>"sci-docs"\<close>: those with the prefix, and only
  those, are deleted.
\<close>

theorem cleanup_frame:
  "(\<forall>key. \<not> prefix ''sci-docs'' key \<longrightarrow> bucket (snd (cleanup_cell s)) key = bucket s key)
   \<and> (endpoint s \<longrightarrow>
        fst (cleanup_cell s) = None \<and> \<not> endpoint (snd (cleanup_cell s))
        \<and> (\<forall>key. bucket (snd (cleanup_cell s)) key
              = (if prefix ''sci-docs'' key then None else bucket s key))
        \<and> dom (bucket (snd (cleanup_cell s)))
              = {key \<in> dom (bucket s). \<not> prefix ''sci-docs'' key})"
  by (auto simp: cleanup_cell_def delete_objects_def Let_def dom_def)

theorem cleanup_frame_witness:
  "endpoint sample_kernel
   \<and> fst (cleanup_cell sample_kernel) = None
   \<and> \<not> endpoint (snd (cleanup_cell sample_kernel))
   \<and> bucket (snd (cleanup_cell sample_kernel)) ''sci-docs/data/raw/PMC1043862.txt'' = None
   \<and> bucket (snd (cleanup_cell sample_kernel)) ''other/report.csv'' = Some ''1,2''"
proof -
  have e: "endpoint sample_kernel" by (simp add: sample_kernel_def)
  have p: "prefix ''sci-docs'' ''sci-docs/data/raw/PMC1043862.txt''"
    and q: "\<not> prefix ''sci-docs'' ''other/report.csv''" by simp_all
  have b: "bucket sample_kernel ''other/report.csv'' = Some ''1,2''"
    by (simp add: sample_kernel_def)
  show ?thesis using cleanup_frame [of sample_kernel] e p q b by simp
qed

end
